(* ===== verification/TIB_Prelude.thy ===== *)
theory TIB_Prelude
  imports Complex_Main "HOL-Library.Word"
begin

text \<open>
  Shared vocabulary of the development: machine integers, errno values, and the part of the C
  string library the sources use. A C array of \<open>char\<close> is a list of its bytes; where a function
  reads a string it reads up to the first NUL byte (\<open>cstr\<close>), and the end of a list that has no
  NUL counts as one. Writing \<open>n\<close> bytes at the start of an array is \<open>mem_write\<close>; a write that
  stays inside the array keeps its length, so "no overflow" is "the length is unchanged".
\<close>

named_theorems cstring \<open>reading and writing C strings\<close>
named_theorems tib_defs \<open>the macros of the source\<close>

unbundle bit_operations_syntax

type_synonym u8 = "8 word"
type_synonym u16 = "16 word"
type_synonym u32 = "32 word"

section \<open>Error numbers\<close>

text \<open>The values of picolibc's \<open>errno.h\<close>, the C library of the target.\<close>

definition ENOENT :: int where [tib_defs]: "ENOENT = 2"
definition EIO :: int where [tib_defs]: "EIO = 5"
definition EAGAIN :: int where [tib_defs]: "EAGAIN = 11"
definition EWOULDBLOCK :: int where [tib_defs]: "EWOULDBLOCK = EAGAIN"
definition ENOMEM :: int where [tib_defs]: "ENOMEM = 12"
definition ENODEV :: int where [tib_defs]: "ENODEV = 19"
definition EINVAL :: int where [tib_defs]: "EINVAL = 22"
definition ENETDOWN :: int where [tib_defs]: "ENETDOWN = 115"
definition ETIMEDOUT :: int where [tib_defs]: "ETIMEDOUT = 116"
definition ENOTCONN :: int where [tib_defs]: "ENOTCONN = 128"
definition ENOTSUP :: int where [tib_defs]: "ENOTSUP = 134"

section \<open>Bytes of a C string\<close>

definition NUL :: char where [code_unfold]: "NUL = CHR 0x00"

definition cstr :: "string \<Rightarrow> string" where
  "cstr s = takeWhile (\<lambda>c. c \<noteq> NUL) s"

definition c_strlen :: "string \<Rightarrow> nat" where
  "c_strlen s = length (cstr s)"

definition char_code :: "char \<Rightarrow> int" where
  "char_code c = of_char c"

fun hd0 :: "string \<Rightarrow> char" where
  "hd0 [] = NUL"
| "hd0 (c # s) = c"

text \<open>\<open>strncmp\<close> and \<open>strcmp\<close>: the difference of the first two bytes that differ.\<close>

fun c_strncmp :: "string \<Rightarrow> string \<Rightarrow> nat \<Rightarrow> int" where
  "c_strncmp a b 0 = 0"
| "c_strncmp a b (Suc n) =
     (if hd0 a \<noteq> hd0 b then char_code (hd0 a) - char_code (hd0 b)
      else if hd0 a = NUL then 0
      else c_strncmp (tl a) (tl b) n)"

definition c_strcmp :: "string \<Rightarrow> string \<Rightarrow> int" where
  "c_strcmp a b = c_strncmp a b (Suc (max (length a) (length b)))"

definition c_tolower :: "char \<Rightarrow> char" where
  "c_tolower c =
     (if 65 \<le> char_code c \<and> char_code c \<le> 90 then char_of (char_code c + 32) else c)"

definition c_strncasecmp :: "string \<Rightarrow> string \<Rightarrow> nat \<Rightarrow> int" where
  "c_strncasecmp a b n = c_strncmp (map c_tolower a) (map c_tolower b) n"

definition c_strcasecmp :: "string \<Rightarrow> string \<Rightarrow> int" where
  "c_strcasecmp a b = c_strcmp (map c_tolower a) (map c_tolower b)"

text \<open>\<open>strchr\<close> as an offset, \<open>strcspn\<close> for a single reject character.\<close>

definition c_strcspn1 :: "string \<Rightarrow> char \<Rightarrow> nat" where
  "c_strcspn1 s c = length (takeWhile (\<lambda>x. x \<noteq> c) (cstr s))"

definition c_strchr :: "string \<Rightarrow> char \<Rightarrow> nat option" where
  "c_strchr s c = (if c \<in> set (cstr s) then Some (c_strcspn1 s c) else None)"

text \<open>Writes: \<open>memcpy\<close> to the start of an array, \<open>strncpy\<close>, \<open>snprintf\<close> of a finished text.\<close>

definition mem_write :: "'a list \<Rightarrow> 'a list \<Rightarrow> 'a list" where
  "mem_write buf xs = xs @ drop (length xs) buf"

definition c_strncpy :: "string \<Rightarrow> string \<Rightarrow> nat \<Rightarrow> string" where
  "c_strncpy dst src n = mem_write dst (take n (cstr src @ replicate n NUL))"

definition c_snprintf :: "string \<Rightarrow> nat \<Rightarrow> string \<Rightarrow> string \<times> nat" where
  "c_snprintf buf sz txt =
     (if sz = 0 then buf else mem_write buf (take (sz - 1) txt @ [NUL]), length txt)"

section \<open>Facts about C strings\<close>

lemma cstr_Nil [simp, cstring]: "cstr [] = []"
  by (simp add: cstr_def)

lemma cstr_NUL [simp, cstring]: "cstr (NUL # s) = []"
  by (simp add: cstr_def)

lemma cstr_Cons [cstring]: "c \<noteq> NUL \<Longrightarrow> cstr (c # s) = c # cstr s"
  by (simp add: cstr_def)

lemma NUL_notin_cstr [simp]: "NUL \<notin> set (cstr s)"
  by (auto simp: cstr_def dest: set_takeWhileD)

lemma cstr_id: "NUL \<notin> set s \<Longrightarrow> cstr s = s"
  by (auto simp: cstr_def takeWhile_eq_all_conv)

lemma cstr_cstr [simp]: "cstr (cstr s) = cstr s"
  by (rule cstr_id) simp

lemma cstr_append_NUL [cstring]: "NUL \<notin> set s \<Longrightarrow> cstr (s @ NUL # t) = s"
  by (induction s) (auto simp: cstring)

lemma cstr_append_NUL' [cstring]: "cstr (cstr s @ NUL # t) = cstr s"
  by (rule cstr_append_NUL) simp

lemma length_cstr_le: "length (cstr s) \<le> length s"
  by (simp add: cstr_def length_takeWhile_le)

lemma cstr_replicate_NUL [simp]: "cstr (replicate n NUL) = []"
  by (cases n) simp_all

lemma hd0_tl_cstr:
  "cstr a = (if hd0 a = NUL then [] else hd0 a # cstr (tl a))"
  by (cases a) (auto simp: cstring)

lemma char_code_inj [simp]: "char_code a = char_code b \<longleftrightarrow> a = b"
  by (simp add: char_code_def)

lemma c_strncmp_0_iff [cstring]:
  "c_strncmp a b n = 0 \<longleftrightarrow> take n (cstr a) = take n (cstr b)"
proof (induction a b n rule: c_strncmp.induct)
  case (1 a b)
  then show ?case by simp
next
  case (2 a b n)
  show ?case
  proof (cases "hd0 a = hd0 b \<and> hd0 a \<noteq> NUL")
    case True
    with 2 show ?thesis
      by (simp add: hd0_tl_cstr [of a] hd0_tl_cstr [of b])
  next
    case False
    then show ?thesis
      by (auto simp: hd0_tl_cstr [of a] hd0_tl_cstr [of b])
  qed
qed

lemma c_strcmp_0_iff [cstring]: "c_strcmp a b = 0 \<longleftrightarrow> cstr a = cstr b"
proof -
  let ?n = "Suc (max (length a) (length b))"
  have "length (cstr a) \<le> ?n" "length (cstr b) \<le> ?n"
    using length_cstr_le [of a] length_cstr_le [of b] by simp_all
  then show ?thesis
    by (simp only: c_strcmp_def c_strncmp_0_iff take_all)
qed

lemma c_tolower_NUL_iff [simp]: "c_tolower c = NUL \<longleftrightarrow> c = NUL"
proof (cases "65 \<le> char_code c \<and> char_code c \<le> 90")
  case True
  then have "c_tolower c = char_of (char_code c + 32)" and "c \<noteq> NUL"
    by (auto simp: c_tolower_def NUL_def char_code_def)
  moreover have "char_of (char_code c + 32) \<noteq> NUL"
  proof
    assume "char_of (char_code c + 32) = NUL"
    then have "of_char (char_of (char_code c + 32)) = (of_char NUL :: int)"
      by simp
    with True show False
      by (simp add: NUL_def)
  qed
  ultimately show ?thesis by simp
qed (auto simp: c_tolower_def NUL_def char_code_def)

lemma cstr_map_tolower [cstring]: "cstr (map c_tolower s) = map c_tolower (cstr s)"
  by (simp add: cstr_def takeWhile_map o_def)

lemma c_strncasecmp_0_iff [cstring]:
  "c_strncasecmp a b n = 0 \<longleftrightarrow>
     map c_tolower (take n (cstr a)) = map c_tolower (take n (cstr b))"
  by (simp add: c_strncasecmp_def cstring take_map)

lemma c_strcasecmp_0_iff [cstring]:
  "c_strcasecmp a b = 0 \<longleftrightarrow> map c_tolower (cstr a) = map c_tolower (cstr b)"
  by (simp add: c_strcasecmp_def cstring)

lemma length_mem_write [simp]: "length (mem_write buf xs) = max (length xs) (length buf)"
  by (simp add: mem_write_def)

lemma cstr_mem_write [cstring]:
  "NUL \<notin> set s \<Longrightarrow> cstr (mem_write buf (s @ [NUL])) = s"
  by (simp add: mem_write_def cstring)

lemma length_c_strncpy [simp]: "length (c_strncpy dst src n) = max n (length dst)"
  by (simp add: c_strncpy_def)

text \<open>
  \<open>strncpy\<close> writes no terminator when the source fills the bound; the byte after it must be a NUL
  already, which is why the sources copy into a zeroed array with a bound one short of its size.
\<close>

lemma cstr_c_strncpy:
  assumes "length (cstr src) < n \<or> (n < length dst \<and> dst ! n = NUL)"
  shows "cstr (c_strncpy dst src n) = take n (cstr src)"
proof (cases "length (cstr src) < n")
  case True
  then obtain k where "n - length (cstr src) = Suc k"
    by (metis Suc_diff_Suc)
  with True show ?thesis
    by (simp add: c_strncpy_def mem_write_def cstring)
next
  case False
  with assms have "n < length dst" "dst ! n = NUL" by auto
  then have "drop n dst = NUL # drop (Suc n) dst"
    by (metis Cons_nth_drop_Suc)
  moreover have "NUL \<notin> set (take n (cstr src))"
    by (meson NUL_notin_cstr in_set_takeD)
  ultimately show ?thesis
    using False by (simp add: c_strncpy_def mem_write_def cstring)
qed

lemma c_strcspn1_append:
  "cstr s = p @ c # t \<Longrightarrow> c \<notin> set p \<Longrightarrow> c_strcspn1 s c = length p"
  by (simp add: c_strcspn1_def takeWhile_append)

lemma c_strchr_None_iff: "c_strchr s c = None \<longleftrightarrow> c \<notin> set (cstr s)"
  by (simp add: c_strchr_def)

lemma c_strchr_Some_iff:
  "c_strchr s c = Some n \<longleftrightarrow> (\<exists>p t. cstr s = p @ c # t \<and> c \<notin> set p \<and> n = length p)"
proof
  assume *: "c_strchr s c = Some n"
  then have "c \<in> set (cstr s)" by (simp add: c_strchr_def split: if_splits)
  then obtain p t where pt: "cstr s = p @ c # t" "c \<notin> set p"
    by (meson split_list_first)
  with * have "n = length p"
    by (auto simp: c_strchr_def c_strcspn1_append)
  with pt show "\<exists>p t. cstr s = p @ c # t \<and> c \<notin> set p \<and> n = length p" by blast
next
  assume "\<exists>p t. cstr s = p @ c # t \<and> c \<notin> set p \<and> n = length p"
  then show "c_strchr s c = Some n"
    by (auto simp: c_strchr_def c_strcspn1_append)
qed

section \<open>Decimal output of integers\<close>

text \<open>The digits that \<open>%d\<close>, \<open>%hd\<close> and \<open>%lld\<close> print.\<close>

definition digit :: "int \<Rightarrow> char" where
  "digit d = char_of (48 + d)"

function show_pos :: "int \<Rightarrow> string" where
  "show_pos n = (if n < 10 then [digit n] else show_pos (n div 10) @ [digit (n mod 10)])"
  by pat_completeness auto
termination
  by (relation "measure nat") auto

declare show_pos.simps [simp del]

definition show_int :: "int \<Rightarrow> string" where
  "show_int i = (if i < 0 then ''-'' @ show_pos (- i) else show_pos i)"

lemma length_show_pos: "0 \<le> n \<Longrightarrow> n < 10 ^ Suc k \<Longrightarrow> length (show_pos n) \<le> Suc k"
proof (induction k arbitrary: n)
  case 0
  then show ?case by (simp add: show_pos.simps [of n])
next
  case (Suc k)
  then have "n div 10 < 10 ^ Suc k" by simp
  with Suc.IH [of "n div 10"] Suc.prems show ?case
    by (simp add: show_pos.simps [of n])
qed

lemma length_show_int: "- (10 ^ Suc k) < i \<Longrightarrow> i < 10 ^ Suc k \<Longrightarrow> length (show_int i) \<le> Suc (Suc k)"
  using length_show_pos [of i k] length_show_pos [of "- i" k] by (auto simp: show_int_def)

lemma digit_neq_NUL: "0 \<le> d \<Longrightarrow> d < 10 \<Longrightarrow> digit d \<noteq> NUL"
proof
  assume d: "0 \<le> d" "d < 10" and "digit d = NUL"
  then have "(of_char (digit d) :: int) = of_char NUL" by simp
  with d show False by (simp add: digit_def NUL_def)
qed

lemma NUL_notin_show_pos: "0 \<le> n \<Longrightarrow> NUL \<notin> set (show_pos n)"
proof (induction n rule: show_pos.induct)
  case (1 n)
  then show ?case
    using digit_neq_NUL [of n] digit_neq_NUL [of "n mod 10"] by (auto simp: show_pos.simps [of n])
qed

lemma NUL_notin_show_int [simp]: "NUL \<notin> set (show_int i)"
  using NUL_notin_show_pos [of i] NUL_notin_show_pos [of "- i"] by (auto simp: show_int_def NUL_def)

end
