(* ===== verification/C_Float.thy ===== *)
theory C_Float
  imports TIB_Prelude
begin

text \<open>
  The C types \<open>float\<close> and \<open>double\<close>: IEEE 754 binary32 and binary64, rounding to nearest with ties
  to even, every operation rounded on its own (no contraction of \<open>a * b + c\<close>, as ISO C without
  \<open>FP_CONTRACT\<close>). A finite value is the rational number it stands for; negative zero has a
  constructor of its own, positive zero is \<open>Num 0\<close>. All operations compute.
\<close>

datatype fp = NaN | PInf | NInf | NZero | Num rat

record fp_format =
  prec :: int       \<comment> \<open>bits of the significand\<close>
  ulp_min :: int    \<comment> \<open>exponent of the smallest subnormal\<close>
  e_top :: int      \<comment> \<open>\<open>2 powi e_top\<close> and above is infinite\<close>

definition binary32 :: fp_format where
  "binary32 = \<lparr>prec = 24, ulp_min = -149, e_top = 128\<rparr>"

definition binary64 :: fp_format where
  "binary64 = \<lparr>prec = 53, ulp_min = -1074, e_top = 1024\<rparr>"

section \<open>Rounding\<close>

text \<open>\<open>nbits n\<close> is the length of the binary numeral of \<open>n\<close>, \<open>ilog2 q\<close> the exponent of the leading bit of \<open>q\<close>.\<close>

function nbits :: "int \<Rightarrow> int" where
  "nbits n = (if n \<le> 0 then 0 else 1 + nbits (n div 2))"
  by pat_completeness auto
termination
  by (relation "measure nat") auto

declare nbits.simps [simp del]

definition ilog2 :: "rat \<Rightarrow> int" where
  "ilog2 q =
     (let (n, d) = quotient_of q; k = nbits n - nbits d
      in if 2 powi k \<le> q then k else k - 1)"

definition round_even :: "rat \<Rightarrow> int" where
  "round_even x =
     (let f = \<lfloor>x\<rfloor>; r = x - of_int f in if r < 1/2 \<or> (r = 1/2 \<and> even f) then f else f + 1)"

definition ulp :: "fp_format \<Rightarrow> rat \<Rightarrow> rat" where
  "ulp F q = 2 powi (max (ilog2 q - prec F + 1) (ulp_min F))"

definition round_mag :: "fp_format \<Rightarrow> rat \<Rightarrow> rat" where
  "round_mag F q = of_int (round_even (q / ulp F q)) * ulp F q"

definition signed_zero :: "bool \<Rightarrow> fp" where
  "signed_zero s = (if s then NZero else Num 0)"

definition signed_inf :: "bool \<Rightarrow> fp" where
  "signed_inf s = (if s then NInf else PInf)"

text \<open>\<open>fround F s q\<close>: the value of format \<open>F\<close> nearest to \<open>q\<close>; \<open>s\<close> is the sign of an exact zero.\<close>

definition fround :: "fp_format \<Rightarrow> bool \<Rightarrow> rat \<Rightarrow> fp" where
  "fround F s q =
     (if q = 0 then signed_zero s
      else let m = round_mag F \<bar>q\<bar>
           in if 2 powi (e_top F) \<le> m then signed_inf (q < 0)
              else if m = 0 then signed_zero (q < 0)
              else Num (if q < 0 then - m else m))"

section \<open>Operations\<close>

fun is_finite :: "fp \<Rightarrow> bool" where
  "is_finite (Num _) = True"
| "is_finite NZero = True"
| "is_finite _ = False"

fun is_inf :: "fp \<Rightarrow> bool" where
  "is_inf PInf = True"
| "is_inf NInf = True"
| "is_inf _ = False"

fun fval :: "fp \<Rightarrow> rat" where
  "fval (Num q) = q"
| "fval _ = 0"

fun fsign :: "fp \<Rightarrow> bool" where
  "fsign (Num q) = (q < 0)"
| "fsign NZero = True"
| "fsign NInf = True"
| "fsign _ = False"

fun fneg :: "fp \<Rightarrow> fp" where
  "fneg NaN = NaN"
| "fneg PInf = NInf"
| "fneg NInf = PInf"
| "fneg NZero = Num 0"
| "fneg (Num q) = (if q = 0 then NZero else Num (- q))"

definition fadd :: "fp_format \<Rightarrow> fp \<Rightarrow> fp \<Rightarrow> fp" where
  "fadd F x y =
     (if x = NaN \<or> y = NaN \<or> (is_inf x \<and> is_inf y \<and> x \<noteq> y) then NaN
      else if is_inf x then x
      else if is_inf y then y
      else fround F (fsign x \<and> fsign y) (fval x + fval y))"

definition fsub :: "fp_format \<Rightarrow> fp \<Rightarrow> fp \<Rightarrow> fp" where
  "fsub F x y = fadd F x (fneg y)"

definition fmul :: "fp_format \<Rightarrow> fp \<Rightarrow> fp \<Rightarrow> fp" where
  "fmul F x y =
     (let s = (fsign x \<noteq> fsign y)
      in if x = NaN \<or> y = NaN then NaN
         else if is_inf x \<or> is_inf y
         then (if (is_finite x \<and> fval x = 0) \<or> (is_finite y \<and> fval y = 0) then NaN
               else signed_inf s)
         else fround F s (fval x * fval y))"

definition fdiv :: "fp_format \<Rightarrow> fp \<Rightarrow> fp \<Rightarrow> fp" where
  "fdiv F x y =
     (let s = (fsign x \<noteq> fsign y)
      in if x = NaN \<or> y = NaN \<or> (is_inf x \<and> is_inf y) then NaN
         else if is_inf x then signed_inf s
         else if is_inf y then signed_zero s
         else if fval y = 0 then (if fval x = 0 then NaN else signed_inf s)
         else fround F s (fval x / fval y))"

text \<open>The C comparison \<open>x < y\<close>: false whenever an operand is a NaN; the two zeros are equal.\<close>

fun flt :: "fp \<Rightarrow> fp \<Rightarrow> bool" where
  "flt NaN y = False"
| "flt x NaN = False"
| "flt PInf y = False"
| "flt x NInf = False"
| "flt NInf y = True"
| "flt x PInf = True"
| "flt x y = (fval x < fval y)"

text \<open>Conversions from and to integers; an out-of-range conversion to an integer is undefined.\<close>

definition fp_of_int :: "fp_format \<Rightarrow> int \<Rightarrow> fp" where
  "fp_of_int F i = fround F False (of_int i)"

definition trunc_rat :: "rat \<Rightarrow> int" where
  "trunc_rat q = (if q < 0 then \<lceil>q\<rceil> else \<lfloor>q\<rfloor>)"

definition fp_to_uint :: "nat \<Rightarrow> fp \<Rightarrow> nat option" where
  "fp_to_uint bits x =
     (let t = trunc_rat (fval x)
      in if is_finite x \<and> 0 \<le> t \<and> t < 2 ^ bits then Some (nat t) else None)"

text \<open>Decimal literals of the sources.\<close>

definition f32_lit :: "rat \<Rightarrow> fp" where
  "f32_lit q = fround binary32 False q"

definition f64_lit :: "rat \<Rightarrow> fp" where
  "f64_lit q = fround binary64 False q"

section \<open>Comparison and clamping\<close>

text \<open>
  The clamps of the sources compare first with one bound, then with the other, and keep the value
  when both comparisons fail. What they need of the comparison is that it is a strict order.
\<close>

locale clamping =
  fixes lt :: "'a \<Rightarrow> 'a \<Rightarrow> bool"
  assumes irrefl: "\<not> lt x x"
    and asym: "lt x y \<Longrightarrow> \<not> lt y x"
begin

lemma clamp_high_first:
  assumes "\<not> lt hi lo"
  shows "\<not> lt hi (if lt hi x then hi else if lt x lo then lo else x) \<and>
         \<not> lt (if lt hi x then hi else if lt x lo then lo else x) lo"
  using assms irrefl by auto

lemma clamp_low_first:
  assumes "\<not> lt hi lo"
  shows "\<not> lt hi (if lt x lo then lo else if lt hi x then hi else x) \<and>
         \<not> lt (if lt x lo then lo else if lt hi x then hi else x) lo"
  using assms irrefl by auto

lemma clamp_id:
  "\<not> lt hi x \<Longrightarrow> \<not> lt x lo \<Longrightarrow> (if lt hi x then hi else if lt x lo then lo else x) = x"
  by simp

lemma clamp_idem:
  assumes "\<not> lt hi lo" and "y = (if lt hi x then hi else if lt x lo then lo else x)"
  shows "(if lt hi y then hi else if lt y lo then lo else y) = y"
  using clamp_high_first [OF assms(1), of x] assms(2) by (auto split: if_splits)

end

lemma flt_irrefl: "\<not> flt x x"
  by (cases x) simp_all

lemma flt_NaN [simp]: "\<not> flt x NaN"
  by (cases x) simp_all

lemma flt_asym: "flt x y \<Longrightarrow> \<not> flt y x"
  by (cases x; cases y) simp_all

lemma flt_trans: "flt x y \<Longrightarrow> flt y z \<Longrightarrow> flt x z"
  by (cases x; cases y; cases z) auto

interpretation fp_clamp: clamping flt
  by unfold_locales (auto simp: flt_irrefl dest: flt_asym)

lemma flt_finite: "is_finite x \<Longrightarrow> is_finite y \<Longrightarrow> flt x y \<longleftrightarrow> fval x < fval y"
  by (cases x; cases y) simp_all

section \<open>Properties of rounding\<close>

lemma nbits_pos: "0 < n \<Longrightarrow> nbits n = 1 + nbits (n div 2)"
  by (simp add: nbits.simps [of n])

lemma nbits_nonpos [simp]: "n \<le> 0 \<Longrightarrow> nbits n = 0"
  by (simp add: nbits.simps [of n])

lemma nbits_bounds:
  "0 < n \<Longrightarrow> 0 < nbits n \<and> 2 ^ nat (nbits n - 1) \<le> n \<and> n < 2 ^ nat (nbits n)"
proof (induction n rule: nbits.induct)
  case (1 n)
  show ?case
  proof (cases "n = 1")
    case True
    then show ?thesis by (simp add: nbits_pos)
  next
    case False
    with 1 have n: "0 < n div 2" by simp
    then obtain k where k: "nbits (n div 2) = int (Suc k)"
      using 1 by (metis less_le_trans not_less zero_less_imp_eq_int Suc_pred zero_less_Suc of_nat_0_less_iff not_gr_zero)
    with 1 n have "2 ^ k \<le> n div 2" "n div 2 < 2 ^ Suc k"
      by (auto simp: nat_add_distrib)
    then have "2 ^ Suc k \<le> n" "n < 2 ^ Suc (Suc k)" by simp_all
    moreover have "nbits n = int (Suc (Suc k))"
      using 1 k by (simp add: nbits_pos)
    moreover from this have "nat (nbits n - 1) = Suc k" and "nat (nbits n) = Suc (Suc k)" by linarith+
    ultimately show ?thesis by (simp only:) simp
  qed
qed

lemma nbits_bounds_powi:
  assumes "0 < n"
  shows "2 powi (nbits n - 1) \<le> (of_int n :: rat) \<and> (of_int n :: rat) < 2 powi (nbits n)"
proof -
  from nbits_bounds [OF assms] have "0 < nbits n"
    and b: "2 ^ nat (nbits n - 1) \<le> n" "n < 2 ^ nat (nbits n)" by auto
  moreover have "of_int (2 ^ nat (nbits n - 1)) \<le> (of_int n :: rat)" "(of_int n :: rat) < of_int (2 ^ nat (nbits n))"
    using b by (simp_all only: of_int_le_iff of_int_less_iff)
  ultimately show ?thesis by (simp add: power_int_def)
qed

lemma powi_mono: "a \<le> b \<Longrightarrow> (2::rat) powi a \<le> 2 powi b"
  by (simp add: power_int_increasing)

lemma powi_strict: "(2::rat) powi a < 2 powi b \<longleftrightarrow> a < b"
  by (meson linorder_not_le not_less_iff_gr_or_eq one_less_numeral_iff power_int_strict_increasing powi_mono semiring_norm(76))

lemma ilog2_bounds:
  assumes "0 < q"
  shows "2 powi (ilog2 q) \<le> q \<and> q < 2 powi (ilog2 q + 1)"
proof -
  obtain n d where nd: "quotient_of q = (n, d)" by force
  then have d: "0 < d" and q: "q = of_int n / of_int d"
    using quotient_of_denom_pos quotient_of_div by blast+
  with assms have n: "0 < n" by (simp add: zero_less_divide_iff)
  let ?k = "nbits n - nbits d"
  note bn = nbits_bounds_powi [OF n] and bd = nbits_bounds_powi [OF d]
  have "q < 2 powi (nbits n) / 2 powi (nbits d - 1)"
    unfolding q by (rule frac_less) (use bn bd n d in auto)
  also have "\<dots> = 2 powi (?k + 1)"
    by (simp add: power_int_diff [symmetric] algebra_simps)
  finally have up: "q < 2 powi (?k + 1)" .
  have "2 powi (?k - 1) = (2 powi (nbits n - 1) / 2 powi (nbits d) :: rat)"
    by (simp add: power_int_diff [symmetric] algebra_simps)
  also have "\<dots> \<le> q"
    unfolding q by (rule frac_le) (use bn bd n d in auto)
  finally have lo: "2 powi (?k - 1) \<le> q" .
  show ?thesis
    using up lo nd by (auto simp: ilog2_def Let_def)
qed

lemma ilog2_eqI:
  assumes "2 powi e \<le> q" and "q < 2 powi (e + 1)"
  shows "ilog2 q = e"
proof -
  have "0 < q" using assms(1) by (meson less_le_trans zero_less_power_int zero_less_numeral)
  from ilog2_bounds [OF this] assms have "2 powi e < (2::rat) powi (ilog2 q + 1)" "2 powi (ilog2 q) < (2::rat) powi (e + 1)"
    by auto
  then show ?thesis by (simp add: powi_strict)
qed

lemma ilog2_mono: "0 < x \<Longrightarrow> x \<le> y \<Longrightarrow> ilog2 x \<le> ilog2 y"
proof -
  assume "0 < x" "x \<le> y"
  then have "2 powi (ilog2 x) < (2::rat) powi (ilog2 y + 1)"
    using ilog2_bounds [of x] ilog2_bounds [of y] by auto
  then show ?thesis by (simp add: powi_strict)
qed

lemma round_even_of_int [simp]: "round_even (of_int i) = i"
  by (simp add: round_even_def)

lemma round_even_floor: "\<lfloor>x\<rfloor> \<le> round_even x \<and> round_even x \<le> \<lfloor>x\<rfloor> + 1"
  by (simp add: round_even_def Let_def)

lemma round_even_mono: "x \<le> y \<Longrightarrow> round_even x \<le> round_even y"
proof (cases "\<lfloor>x\<rfloor> = \<lfloor>y\<rfloor>")
  case True
  then show "x \<le> y \<Longrightarrow> ?thesis" by (auto simp: round_even_def Let_def)
next
  case False
  assume "x \<le> y"
  with False have "\<lfloor>x\<rfloor> + 1 \<le> \<lfloor>y\<rfloor>" using floor_mono [OF \<open>x \<le> y\<close>] by linarith
  then show ?thesis using round_even_floor [of x] round_even_floor [of y] by linarith
qed

lemma round_even_dist: "\<bar>of_int (round_even x) - x\<bar> \<le> 1/2"
proof -
  have "of_int \<lfloor>x\<rfloor> \<le> x" "x < of_int \<lfloor>x\<rfloor> + 1" by linarith+
  then show ?thesis by (auto simp: round_even_def Let_def abs_le_iff)
qed

lemma ulp_pos [simp]: "0 < ulp F q"
  by (simp add: ulp_def)

lemma ulp_neq_0 [simp]: "ulp F q \<noteq> 0"
  using ulp_pos [of F q] by linarith

lemma powi_int: "0 \<le> k \<Longrightarrow> (2::rat) powi k = of_int (2 ^ nat k)"
  by (simp add: power_int_def)

lemma round_even_int_multiple:
  assumes "q = of_int m * 2 powi e" and "u \<le> e"
  shows "of_int (round_even (q / 2 powi u)) * 2 powi u = q"
proof -
  have "q / 2 powi u = of_int m * 2 powi (e - u)"
    using assms by (simp add: power_int_diff)
  also have "\<dots> = of_int (m * 2 ^ nat (e - u))"
    using assms by (simp add: powi_int)
  finally have "round_even (q / 2 powi u) = m * 2 ^ nat (e - u)"
    by (metis round_even_of_int)
  then have "of_int (round_even (q / 2 powi u)) * 2 powi u = (of_int m * 2 powi (e - u) * 2 powi u :: rat)"
    using assms by (simp add: powi_int)
  also have "\<dots> = q" using assms by (simp add: power_int_diff)
  finally show ?thesis .
qed

text \<open>A magnitude that fits the significand and the exponent range is kept.\<close>

definition fits :: "fp_format \<Rightarrow> rat \<Rightarrow> bool" where
  "fits F q \<longleftrightarrow> (\<exists>m e. q = of_int m * 2 powi e \<and> of_int m < (2::rat) powi (prec F) \<and> ulp_min F \<le> e)"

lemma round_mag_fits:
  assumes "fits F q" and "0 < q"
  shows "round_mag F q = q"
proof -
  from assms obtain m e where q: "q = of_int m * 2 powi e"
    and m: "of_int m < (2::rat) powi (prec F)" and e: "ulp_min F \<le> e"
    by (auto simp: fits_def)
  have "2 powi (ilog2 q) \<le> q" using ilog2_bounds [OF assms(2)] by simp
  also have "q < 2 powi (prec F) * 2 powi e"
    unfolding q using m by simp
  also have "\<dots> = 2 powi (prec F + e)" by (simp add: power_int_add)
  finally have "ilog2 q < prec F + e" by (simp add: powi_strict)
  with e have "max (ilog2 q - prec F + 1) (ulp_min F) \<le> e" by simp
  from round_even_int_multiple [OF q this] show ?thesis
    by (simp add: round_mag_def ulp_def)
qed

lemma round_mag_nonneg: "0 \<le> q \<Longrightarrow> 0 \<le> round_mag F q"
  using round_even_mono [of 0 "q / ulp F q"] round_even_of_int [of 0]
  by (simp add: round_mag_def less_imp_le)

lemma round_mag_le_multiple:
  assumes "q \<le> b" and "b = of_int m * 2 powi e" and "max (ilog2 q - prec F + 1) (ulp_min F) \<le> e"
  shows "round_mag F q \<le> b"
proof -
  let ?u = "max (ilog2 q - prec F + 1) (ulp_min F)"
  have "of_int (round_even (q / 2 powi ?u)) * 2 powi ?u \<le> (of_int (round_even (b / 2 powi ?u)) * 2 powi ?u :: rat)"
    using assms(1) by (intro mult_right_mono) (auto intro!: round_even_mono divide_right_mono)
  also have "\<dots> = b" using assms(2,3) by (rule round_even_int_multiple)
  finally show ?thesis by (simp add: round_mag_def ulp_def)
qed

lemma round_mag_ge_multiple:
  assumes "b \<le> q" and "b = of_int m * 2 powi e" and "max (ilog2 q - prec F + 1) (ulp_min F) \<le> e"
  shows "b \<le> round_mag F q"
proof -
  let ?u = "max (ilog2 q - prec F + 1) (ulp_min F)"
  have "b = of_int (round_even (b / 2 powi ?u)) * 2 powi ?u"
    using round_even_int_multiple [OF assms(2,3)] by simp
  also have "\<dots> \<le> of_int (round_even (q / 2 powi ?u)) * 2 powi ?u"
    using assms(1) by (intro mult_right_mono) (auto intro!: round_even_mono divide_right_mono)
  finally show ?thesis by (simp add: round_mag_def ulp_def)
qed

lemma round_mag_mono:
  assumes "0 < x" and "x \<le> y" and p: "1 \<le> prec F"
  shows "round_mag F x \<le> round_mag F y"
proof (cases "ulp F x = ulp F y")
  case True
  have "of_int (round_even (x / ulp F y)) \<le> (of_int (round_even (y / ulp F y)) :: rat)"
    using assms(2) by (intro of_int_le_iff [THEN iffD2] round_even_mono divide_right_mono) (auto intro: less_imp_le)
  then show ?thesis
    unfolding round_mag_def True by (intro mult_right_mono) (auto intro: less_imp_le)
next
  case False
  let ?ux = "max (ilog2 x - prec F + 1) (ulp_min F)" and ?uy = "max (ilog2 y - prec F + 1) (ulp_min F)"
  have "ilog2 x \<le> ilog2 y" using assms by (intro ilog2_mono)
  moreover from False have "?ux \<noteq> ?uy" unfolding ulp_def by metis
  ultimately have lt: "?ux < ?uy" by linarith
  then have uy: "?uy = ilog2 y - prec F + 1" and xy: "ilog2 x + 1 \<le> ilog2 y" by auto
  have "x \<le> 2 powi (ilog2 x + 1)" using ilog2_bounds [OF assms(1)] by simp
  also have "\<dots> \<le> 2 powi (ilog2 y)" using xy by (rule powi_mono)
  finally have "round_mag F x \<le> 2 powi (ilog2 y)"
    by (rule round_mag_le_multiple [where m = 1]) (use lt uy p in auto)
  also have "\<dots> \<le> round_mag F y"
    by (rule round_mag_ge_multiple [where m = 1 and e = "ilog2 y"])
       (use assms uy p in \<open>auto intro: ilog2_bounds [THEN conjunct1]\<close>)
  finally show ?thesis .
qed

lemma fround_0 [simp]: "fround F s 0 = signed_zero s"
  by (simp add: fround_def)

lemma signed_zero_simps [simp]: "fval (signed_zero s) = 0" "is_finite (signed_zero s)"
  by (simp_all add: signed_zero_def)

text \<open>The bounds of a rounded value, and that rounding keeps the order, for non-negative values.\<close>

lemma fround_nonneg_le:
  assumes "0 \<le> q" and "q \<le> b" and b: "fits F b" "b < 2 powi (e_top F)" and p: "1 \<le> prec F"
  shows "is_finite (fround F s q) \<and> 0 \<le> fval (fround F s q) \<and> fval (fround F s q) \<le> b"
proof (cases "q = 0")
  case True
  then show ?thesis using assms by (simp add: fround_def signed_zero_def)
next
  case False
  with assms have q: "0 < q" by simp
  with assms have "round_mag F q \<le> round_mag F b" by (intro round_mag_mono)
  also have "\<dots> = b" using assms q by (intro round_mag_fits) auto
  finally have m: "round_mag F q \<le> b" .
  moreover have "0 \<le> round_mag F q" using q by (intro round_mag_nonneg) simp
  ultimately show ?thesis
    using q b by (auto simp: fround_def Let_def signed_zero_def)
qed

lemma fval_fround_mono:
  assumes "0 \<le> q" and "q \<le> r" and "r \<le> b" and b: "fits F b" "b < 2 powi (e_top F)" and p: "1 \<le> prec F"
  shows "fval (fround F s q) \<le> fval (fround F t r)"
proof (cases "q = 0")
  case True
  then show ?thesis
    using assms fround_nonneg_le [of r b F t] by simp
next
  case False
  with assms have q: "0 < q" and r: "0 < r" by simp_all
  have m: "round_mag F q \<le> round_mag F r" using q assms by (intro round_mag_mono)
  have "round_mag F r \<le> round_mag F b" using r assms by (intro round_mag_mono)
  also have "\<dots> = b" using r assms by (intro round_mag_fits) auto
  finally have "round_mag F r < 2 powi (e_top F)" using b by simp
  moreover have "0 \<le> round_mag F q" "0 \<le> round_mag F r"
    using q r by (auto intro: round_mag_nonneg)
  ultimately show ?thesis
    using m q r by (auto simp: fround_def Let_def signed_zero_def)
qed

lemma fround_exact:
  assumes "fits F \<bar>q\<bar>" and "\<bar>q\<bar> < 2 powi (e_top F)"
  shows "is_finite (fround F s q) \<and> fval (fround F s q) = q"
proof (cases "q = 0")
  case True
  then show ?thesis by (simp add: fround_def signed_zero_def)
next
  case False
  with assms have "round_mag F \<bar>q\<bar> = \<bar>q\<bar>" by (intro round_mag_fits) auto
  with assms False show ?thesis by (auto simp: fround_def Let_def)
qed

text \<open>For evaluation: the overflow test on the exponent, without the power itself.\<close>

lemma fround_code [code]:
  "fround F s q =
     (if q = 0 then signed_zero s
      else let m = round_mag F \<bar>q\<bar>
           in if m = 0 then signed_zero (q < 0)
              else if e_top F \<le> ilog2 m then signed_inf (q < 0)
              else Num (if q < 0 then - m else m))"
proof -
  have "0 < m \<Longrightarrow> 2 powi (e_top F) \<le> m \<longleftrightarrow> e_top F \<le> ilog2 m" for m
    using ilog2_bounds [of m] powi_mono [of "e_top F" "ilog2 m"] powi_mono [of "ilog2 m + 1" "e_top F"]
    by fastforce
  moreover have "0 \<le> round_mag F \<bar>q\<bar>" by (rule round_mag_nonneg) simp
  moreover have "\<not> 2 powi (e_top F) \<le> (0::rat)" by (simp add: not_le)
  ultimately show ?thesis by (auto simp: fround_def Let_def)
qed

lemma fits_int:
  assumes "ulp_min F \<le> 0" and "of_int i < (2::rat) powi (prec F)"
  shows "fits F (of_int i)"
  unfolding fits_def by (rule exI [of _ i], rule exI [of _ 0]) (use assms in simp)

section \<open>Decimal output of \<open>%.4f\<close>\<close>

text \<open>The exact value rounded to four decimals, ties to even.\<close>

definition show_fixed4 :: "rat \<Rightarrow> string" where
  "show_fixed4 q =
     (let n = round_even (10000 * q)
      in show_int (n div 10000) @ ''.'' @ drop 1 (show_int (10000 + n mod 10000)))"

fun show_f4 :: "fp \<Rightarrow> string" where
  "show_f4 NaN = ''nan''"
| "show_f4 PInf = ''inf''"
| "show_f4 NInf = ''-inf''"
| "show_f4 NZero = ''-0.0000''"
| "show_f4 (Num q) = (if q < 0 then ''-'' @ show_fixed4 (- q) else show_fixed4 q)"

end
