(* ===== verification/Platform.thy ===== *)
theory Platform
  imports C_Float
begin

text \<open>
  The board as the application sees it. Drivers and kernel services are not part of the sources:
  every call to one is an event appended to a history, and what the call returns is a parameter,
  a function of the history up to and including the call. A theorem for all values of a
  \<open>platform\<close> therefore holds for every behaviour of the drivers.
\<close>

type_synonym device = string

datatype io_event =
    Gpio_pin_configure device u8          \<comment> \<open>\<open>gpio_pin_configure(dev, pin, GPIO_OUTPUT_INACTIVE)\<close>\<close>
  | Gpio_pin_set device u8 int            \<comment> \<open>\<open>gpio_pin_set(dev, pin, value)\<close>\<close>
  | Power_configure                       \<comment> \<open>\<open>gpio_pin_configure_dt(&power_gpio, GPIO_OUTPUT_INACTIVE)\<close>\<close>
  | Power_get                             \<comment> \<open>\<open>gpio_pin_get_dt(&power_gpio)\<close>\<close>
  | Power_set int                         \<comment> \<open>\<open>gpio_pin_set_dt(&power_gpio, value)\<close>\<close>
  | K_sleep nat                           \<comment> \<open>\<open>k_sleep\<close>, \<open>k_msleep\<close>, in milliseconds\<close>
  | Modbus_init                           \<comment> \<open>\<open>modbus_init_client\<close>\<close>
  | Modbus_read u8 u16                    \<comment> \<open>\<open>modbus_read_holding_regs(iface, node, address, _, 1)\<close>\<close>
  | Modbus_write u8 u16 u16               \<comment> \<open>\<open>modbus_write_holding_regs(iface, node, address, &value, 1)\<close>\<close>
  | Dac_channel_setup u8                  \<comment> \<open>\<open>dac_channel_setup(dac_dev, &cfg)\<close>\<close>
  | Dac_write_value u8 nat                \<comment> \<open>\<open>dac_write_value(dac_dev, channel, code)\<close>\<close>

type_synonym io = "io_event list"

record platform =
  gpio_dt_ready :: bool               \<comment> \<open>\<open>gpio_is_ready_dt(&power_gpio)\<close>\<close>
  power_configure_rc :: "io \<Rightarrow> int"
  power_get_rc :: "io \<Rightarrow> int"
  power_set_rc :: "io \<Rightarrow> int"
  modbus_init_rc :: "io \<Rightarrow> int"
  modbus_read_rc :: "io \<Rightarrow> int \<times> u16"    \<comment> \<open>error code and the register read\<close>
  modbus_write_rc :: "io \<Rightarrow> int"
  dac_ready :: bool
  dac_setup_rc :: "io \<Rightarrow> int"
  dac_write_rc :: "io \<Rightarrow> int"
  adc_ready :: bool
  expander_ready :: bool

text \<open>The board on which every driver call succeeds and every register reads as zero.\<close>

definition quiet_platform :: platform where
  "quiet_platform =
     \<lparr>gpio_dt_ready = True, power_configure_rc = (\<lambda>_. 0), power_get_rc = (\<lambda>_. 0),
      power_set_rc = (\<lambda>_. 0), modbus_init_rc = (\<lambda>_. 0), modbus_read_rc = (\<lambda>_. (0, 0)),
      modbus_write_rc = (\<lambda>_. 0), dac_ready = True, dac_setup_rc = (\<lambda>_. 0),
      dac_write_rc = (\<lambda>_. 0), adc_ready = True, expander_ready = True\<rparr>"

end
