(* ===== verification/Mems_Switching.thy ===== *)
theory Mems_Switching
  imports Platform
begin

text \<open>
  \<open>app/src/mems_switching.c\<close> and \<open>.h\<close>: the optical switches and the router that names paths
  through them. A \<open>struct mems_switch *\<close> is an index into the application's array of switches
  (the \<open>bank\<close>), so that the router and the handlers see the same switch. The arrays with a counter
  beside them (\<open>routes\<close>, \<open>num_routes\<close>) are the list of their used entries.
\<close>

definition MEMS_SOURCEDEST_MAX_LEN :: nat where [tib_defs]: "MEMS_SOURCEDEST_MAX_LEN = 24"
definition MEMS_SWITCH_PULSE_DELAY_MS :: nat where [tib_defs]: "MEMS_SWITCH_PULSE_DELAY_MS = 2"
definition MEMS_SWITCH_NAME_LEN :: nat where [tib_defs]: "MEMS_SWITCH_NAME_LEN = 24"
definition MEMS_ROUTER_MAX_SWITCHES :: nat where [tib_defs]: "MEMS_ROUTER_MAX_SWITCHES = 8"
definition MEMS_ROUTER_MAX_ROUTES :: nat where [tib_defs]: "MEMS_ROUTER_MAX_ROUTES = 18"
definition MEMS_ROUTER_MAX_ROUTE_PATH :: nat where [tib_defs]: "MEMS_ROUTER_MAX_ROUTE_PATH = 5"
definition MEMS_ROUTER_MAX_ACTIVE_ROUTES :: nat where [tib_defs]: "MEMS_ROUTER_MAX_ACTIVE_ROUTES = 6"

section \<open>Data\<close>

record mems_switch =
  gpio_dev :: device
  pin_a :: u8
  pin_b :: u8
  sw_state :: char
  sw_name :: string     \<comment> \<open>an array of \<open>MEMS_SWITCH_NAME_LEN\<close> bytes\<close>

record mems_route_step =
  switch_name :: string
  step_state :: char

record mems_route_key =
  input_name :: string
  output_name :: string

record mems_route =
  route_key :: mems_route_key
  route_steps :: "mems_route_step list"

record mems_router =
  router_switches :: "nat list"
  router_routes :: "mems_route list"

type_synonym bank = "mems_switch list"

section \<open>Switch operations\<close>

definition mems_switch_init ::
  "mems_switch \<Rightarrow> device \<Rightarrow> u8 \<Rightarrow> u8 \<Rightarrow> string \<Rightarrow> io \<Rightarrow> mems_switch \<times> io" where
  "mems_switch_init sw dev a b name h =
     (sw\<lparr>gpio_dev := dev, pin_a := a, pin_b := b, sw_state := CHR ''U'',
         sw_name := (c_strncpy (sw_name sw) name (MEMS_SWITCH_NAME_LEN - 1))
                      [MEMS_SWITCH_NAME_LEN - 1 := NUL]\<rparr>,
      h @ [Gpio_pin_configure dev a, Gpio_pin_configure dev b])"

definition pulse :: "device \<Rightarrow> u8 \<Rightarrow> io" where
  "pulse dev pin =
     [Gpio_pin_set dev pin 0, K_sleep MEMS_SWITCH_PULSE_DELAY_MS,
      Gpio_pin_set dev pin 1, K_sleep MEMS_SWITCH_PULSE_DELAY_MS,
      Gpio_pin_set dev pin 0, K_sleep MEMS_SWITCH_PULSE_DELAY_MS]"

definition mems_switch_set_state :: "mems_switch \<Rightarrow> char \<Rightarrow> io \<Rightarrow> int \<times> mems_switch \<times> io" where
  "mems_switch_set_state sw st h =
     (if st = CHR ''A'' then (0, sw\<lparr>sw_state := st\<rparr>, h @ pulse (gpio_dev sw) (pin_a sw))
      else if st = CHR ''B'' then (0, sw\<lparr>sw_state := st\<rparr>, h @ pulse (gpio_dev sw) (pin_b sw))
      else (-1, sw, h))"

text \<open>A null pointer is \<open>None\<close>; the second argument is what \<open>out_state\<close> points to.\<close>

definition mems_switch_get_state :: "mems_switch option \<Rightarrow> char option \<Rightarrow> int \<times> char option" where
  "mems_switch_get_state sw out =
     (case (sw, out) of
        (Some s, Some _) \<Rightarrow>
          (if sw_state s = CHR ''A'' \<or> sw_state s = CHR ''B'' then 0 else -1, Some (sw_state s))
      | _ \<Rightarrow> (-1, out))"

section \<open>Router operations\<close>

text \<open>\<open>None\<close>: the caller's array is shorter than the count it passes, an out-of-bounds read.\<close>

definition mems_router_init :: "mems_router \<Rightarrow> nat list \<Rightarrow> u8 \<Rightarrow> mems_router option" where
  "mems_router_init r sws num =
     (let n = (if unat num > MEMS_ROUTER_MAX_SWITCHES then MEMS_ROUTER_MAX_SWITCHES else unat num)
      in if length sws < n then None
         else Some (r\<lparr>router_switches := take n sws, router_routes := []\<rparr>))"

fun find_switch_from :: "bank \<Rightarrow> nat list \<Rightarrow> string \<Rightarrow> nat option" where
  "find_switch_from b [] name = None"
| "find_switch_from b (p # ps) name =
     (if c_strncmp (sw_name (b ! p)) name MEMS_SWITCH_NAME_LEN = 0 then Some p
      else find_switch_from b ps name)"

definition mems_router_find_switch :: "bank \<Rightarrow> mems_router \<Rightarrow> string \<Rightarrow> nat option" where
  "mems_router_find_switch b r name = find_switch_from b (router_switches r) name"

definition mems_router_define_route ::
  "mems_router \<Rightarrow> string option \<Rightarrow> string option \<Rightarrow> mems_route_step list option \<Rightarrow> u8
     \<Rightarrow> (int \<times> mems_router) option" where
  "mems_router_define_route r inp out steps num =
     (if length (router_routes r) \<ge> MEMS_ROUTER_MAX_ROUTES then Some (-1, r)
      else case (inp, out, steps) of
        (Some i, Some ou, Some ss) \<Rightarrow>
          (if num = 0 \<or> unat num > MEMS_ROUTER_MAX_ROUTE_PATH then Some (-2, r)
           else if length ss < unat num then None
           else Some (0, r\<lparr>router_routes := router_routes r @
                  [\<lparr>route_key = \<lparr>input_name = i, output_name = ou\<rparr>,
                    route_steps = take (unat num) ss\<rparr>]\<rparr>))
      | _ \<Rightarrow> Some (-2, r))"

fun get_route_from :: "mems_route list \<Rightarrow> string \<Rightarrow> string \<Rightarrow> mems_route option" where
  "get_route_from [] inp out = None"
| "get_route_from (rt # rts) inp out =
     (if c_strncmp (input_name (route_key rt)) inp MEMS_SWITCH_NAME_LEN = 0 \<and>
         c_strncmp (output_name (route_key rt)) out MEMS_SWITCH_NAME_LEN = 0
      then Some rt else get_route_from rts inp out)"

definition mems_router_get_route :: "mems_router \<Rightarrow> string \<Rightarrow> string \<Rightarrow> mems_route option" where
  "mems_router_get_route r inp out = get_route_from (router_routes r) inp out"

text \<open>The inner loop of \<open>mems_router_active_routes\<close>, with its \<open>break\<close>.\<close>

fun steps_match :: "bank \<Rightarrow> mems_router \<Rightarrow> mems_route_step list \<Rightarrow> bool" where
  "steps_match b r [] = True"
| "steps_match b r (s # ss) =
     (case mems_router_find_switch b r (switch_name s) of
        None \<Rightarrow> False
      | Some p \<Rightarrow> (if sw_state (b ! p) \<noteq> step_state s then False else steps_match b r ss))"

text \<open>The outer loop: the routes left, the capacity, and the number found so far.\<close>

fun active_routes_from ::
  "bank \<Rightarrow> mems_router \<Rightarrow> mems_route list \<Rightarrow> nat \<Rightarrow> nat \<Rightarrow> mems_route_key list" where
  "active_routes_from b r [] max_keys n_found = []"
| "active_routes_from b r (rt # rts) max_keys n_found =
     (if n_found < max_keys
      then if steps_match b r (route_steps rt)
           then route_key rt # active_routes_from b r rts max_keys (Suc n_found)
           else active_routes_from b r rts max_keys n_found
      else [])"

definition mems_router_active_routes :: "bank \<Rightarrow> mems_router \<Rightarrow> u8 \<Rightarrow> mems_route_key list" where
  "mems_router_active_routes b r max_keys =
     active_routes_from b r (router_routes r) (unat max_keys) 0"

section \<open>The loops as searches\<close>

text \<open>Names are compared on their first \<open>MEMS_SWITCH_NAME_LEN\<close> bytes.\<close>

definition same_name :: "string \<Rightarrow> string \<Rightarrow> bool" where
  "same_name a b \<longleftrightarrow> take MEMS_SWITCH_NAME_LEN (cstr a) = take MEMS_SWITCH_NAME_LEN (cstr b)"

lemma same_name_refl [simp]: "same_name a a"
  by (simp add: same_name_def)

lemma find_switch_from_find:
  "find_switch_from b ps name = find (\<lambda>p. same_name (sw_name (b ! p)) name) ps"
  by (induction ps) (simp_all add: cstring same_name_def)

lemma get_route_from_find:
  "get_route_from rts inp out =
     find (\<lambda>rt. same_name (input_name (route_key rt)) inp \<and>
                same_name (output_name (route_key rt)) out) rts"
  by (induction rts) (simp_all add: cstring same_name_def)

lemma find_switch_in: "mems_router_find_switch b r name = Some p \<Longrightarrow> p \<in> set (router_switches r)"
  by (auto simp: mems_router_find_switch_def find_switch_from_find find_Some_iff)

text \<open>A route is active when each of its switches is found and is in the state its step asks for.\<close>

definition route_active :: "bank \<Rightarrow> mems_router \<Rightarrow> mems_route \<Rightarrow> bool" where
  "route_active b r rt \<longleftrightarrow>
     (\<forall>s \<in> set (route_steps rt). \<exists>p. mems_router_find_switch b r (switch_name s) = Some p \<and>
                                       sw_state (b ! p) = step_state s)"

lemma steps_match_iff:
  "steps_match b r ss \<longleftrightarrow>
     (\<forall>s \<in> set ss. \<exists>p. mems_router_find_switch b r (switch_name s) = Some p \<and>
                        sw_state (b ! p) = step_state s)"
  by (induction ss) (auto split: option.splits)

lemma steps_match_active: "steps_match b r (route_steps rt) \<longleftrightarrow> route_active b r rt"
  by (simp add: steps_match_iff route_active_def)

lemma active_routes_from_filter:
  "active_routes_from b r rts m n =
     take (m - n) (map route_key (filter (\<lambda>rt. steps_match b r (route_steps rt)) rts))"
proof (induction rts arbitrary: n)
  case (Cons rt rts)
  show ?case
  proof (cases "n < m")
    case True
    then obtain k where "m - n = Suc k" and "m - Suc n = k" by (metis Suc_diff_Suc)
    with Cons True show ?thesis by simp
  qed simp
qed simp

section \<open>Well-formed routers\<close>

text \<open>What the sources keep of a router: every switch pointer is into the bank, and the counters stay in range.\<close>

definition router_wf :: "bank \<Rightarrow> mems_router \<Rightarrow> bool" where
  "router_wf b r \<longleftrightarrow>
     length (router_switches r) \<le> MEMS_ROUTER_MAX_SWITCHES \<and>
     (\<forall>p \<in> set (router_switches r). p < length b) \<and>
     length (router_routes r) \<le> MEMS_ROUTER_MAX_ROUTES \<and>
     (\<forall>rt \<in> set (router_routes r).
        route_steps rt \<noteq> [] \<and> length (route_steps rt) \<le> MEMS_ROUTER_MAX_ROUTE_PATH)"

lemma router_wf_pointer:
  "router_wf b r \<Longrightarrow> mems_router_find_switch b r name = Some p \<Longrightarrow> p < length b"
  by (auto simp: router_wf_def dest: find_switch_in)

lemma router_init_wf:
  assumes "mems_router_init r sws num = Some r'" and "\<forall>p \<in> set sws. p < length b"
  shows "router_wf b r'"
proof -
  have "router_routes r' = []"
    and "router_switches r' = take (min (unat num) MEMS_ROUTER_MAX_SWITCHES) sws"
    using assms(1) by (auto simp: mems_router_init_def Let_def split: if_splits)
  with assms(2) show ?thesis
    by (auto simp: router_wf_def dest: in_set_takeD)
qed

lemma define_route_wf:
  assumes "router_wf b r" and "mems_router_define_route r i ou ss num = Some (rc, r')"
  shows "router_wf b r'"
proof -
  have "0 < unat num" if "num \<noteq> 0"
    using that by (simp add: unat_gt_0)
  with assms show ?thesis
    by (auto simp: mems_router_define_route_def router_wf_def split: if_splits option.splits)
qed

lemma define_route_get:
  assumes "mems_router_define_route r (Some i) (Some ou) (Some ss) num = Some (0, r')"
  shows "mems_router_get_route r' inp out =
    (case mems_router_get_route r inp out of
       Some rt \<Rightarrow> Some rt
     | None \<Rightarrow> if same_name i inp \<and> same_name ou out
               then Some \<lparr>route_key = \<lparr>input_name = i, output_name = ou\<rparr>,
                          route_steps = take (unat num) ss\<rparr>
               else None)"
proof -
  have find_snoc: "find P (xs @ [x]) = (case find P xs of Some y \<Rightarrow> Some y | None \<Rightarrow> if P x then Some x else None)"
    for P and xs :: "mems_route list" and x
    by (induction xs) auto
  show ?thesis
    using assms
    by (auto simp: mems_router_define_route_def mems_router_get_route_def get_route_from_find find_snoc
        split: if_splits)
qed

section \<open>The switch bank interface\<close>

text \<open>
  What the handlers rely on: setting a switch found by its name changes that switch's state and
  nothing else the lookups can see.
\<close>

locale switch_bank =
  fixes lookup :: "'b \<Rightarrow> string \<Rightarrow> nat option"
    and state_of :: "'b \<Rightarrow> nat \<Rightarrow> char"
    and set_to :: "'b \<Rightarrow> nat \<Rightarrow> char \<Rightarrow> 'b"
    and valid :: "'b \<Rightarrow> bool"
    and legal :: "char \<Rightarrow> bool"
  assumes valid_set: "valid b \<Longrightarrow> valid (set_to b p c)"
    and lookup_set: "valid b \<Longrightarrow> lookup (set_to b p c) name = lookup b name"
    and state_same: "valid b \<Longrightarrow> lookup b name = Some p \<Longrightarrow> legal c \<Longrightarrow> state_of (set_to b p c) p = c"
    and state_other: "valid b \<Longrightarrow> q \<noteq> p \<Longrightarrow> state_of (set_to b p c) q = state_of b q"
begin

definition apply_step :: "'b \<Rightarrow> mems_route_step \<Rightarrow> 'b" where
  "apply_step b s = (case lookup b (switch_name s) of None \<Rightarrow> b | Some p \<Rightarrow> set_to b p (step_state s))"

definition apply_steps :: "'b \<Rightarrow> mems_route_step list \<Rightarrow> 'b" where
  "apply_steps b ss = foldl apply_step b ss"

lemma apply_steps_simps [simp]:
  "apply_steps b [] = b"
  "apply_steps b (s # ss) = apply_steps (apply_step b s) ss"
  by (simp_all add: apply_steps_def)

lemma apply_step_valid: "valid b \<Longrightarrow> valid (apply_step b s)"
  by (auto simp: apply_step_def valid_set split: option.splits)

lemma apply_step_lookup: "valid b \<Longrightarrow> lookup (apply_step b s) name = lookup b name"
  by (auto simp: apply_step_def lookup_set split: option.splits)

lemma apply_steps_valid_lookup:
  "valid b \<Longrightarrow> valid (apply_steps b ss) \<and> lookup (apply_steps b ss) name = lookup b name"
  by (induction ss arbitrary: b) (simp_all add: apply_step_valid apply_step_lookup)

lemma apply_steps_frame:
  assumes "valid b" and "\<forall>s \<in> set ss. lookup b (switch_name s) \<noteq> Some q"
  shows "state_of (apply_steps b ss) q = state_of b q"
  using assms
proof (induction ss arbitrary: b)
  case (Cons s ss)
  then have "state_of (apply_step b s) q = state_of b q"
    by (auto simp: apply_step_def state_other split: option.splits)
  with Cons show ?case
    by (simp add: apply_step_valid apply_step_lookup)
qed simp

lemma apply_steps_reach:
  assumes "valid b" and "distinct (map (lookup b \<circ> switch_name) ss)"
    and "\<forall>s \<in> set ss. lookup b (switch_name s) \<noteq> None \<and> legal (step_state s)"
    and "s \<in> set ss" and "lookup b (switch_name s) = Some p"
  shows "state_of (apply_steps b ss) p = step_state s"
  using assms
proof (induction ss arbitrary: b)
  case (Cons t ss)
  note v = apply_step_valid [OF Cons.prems(1), of t] and l = apply_step_lookup [OF Cons.prems(1), of t]
  show ?case
  proof (cases "s = t")
    case True
    from Cons.prems True have "\<forall>u \<in> set ss. lookup b (switch_name u) \<noteq> Some p"
      by (auto simp: image_iff)
    then have "state_of (apply_steps (apply_step b t) ss) p = state_of (apply_step b t) p"
      by (intro apply_steps_frame v) (simp add: l)
    also have "\<dots> = step_state s"
      using Cons.prems True by (auto simp: apply_step_def intro: state_same)
    finally show ?thesis by simp
  next
    case False
    have "state_of (apply_steps (apply_step b t) ss) p = step_state s"
      by (rule Cons.IH [OF v]) (use Cons.prems False in \<open>auto simp: l o_def\<close>)
    then show ?thesis by simp
  qed
qed simp

end

text \<open>The bank of the application behind its router.\<close>

definition legal_state :: "char \<Rightarrow> bool" where
  "legal_state c \<longleftrightarrow> c = CHR ''A'' \<or> c = CHR ''B''"

definition bank_set :: "mems_router \<times> bank \<Rightarrow> nat \<Rightarrow> char \<Rightarrow> mems_router \<times> bank" where
  "bank_set rb p c =
     (fst rb, (snd rb)[p := fst (snd (mems_switch_set_state (snd rb ! p) c []))])"

lemma set_state_switch:
  "fst (snd (mems_switch_set_state sw c h)) = (if legal_state c then sw\<lparr>sw_state := c\<rparr> else sw)"
  by (auto simp: mems_switch_set_state_def legal_state_def)

lemma find_switch_from_cong:
  assumes "\<And>p. p \<in> set ps \<Longrightarrow> sw_name (b ! p) = sw_name (b' ! p)"
  shows "find_switch_from b ps name = find_switch_from b' ps name"
  using assms by (induction ps) auto

lemma find_switch_update:
  assumes "sw_name sw = sw_name (b ! p)"
  shows "mems_router_find_switch (b[p := sw]) r name = mems_router_find_switch b r name"
  unfolding mems_router_find_switch_def
proof (rule find_switch_from_cong)
  fix q
  show "sw_name (b[p := sw] ! q) = sw_name (b ! q)"
    using assms by (cases "p < length b") (auto simp: nth_list_update list_update_beyond)
qed

interpretation tib_bank: switch_bank
  "\<lambda>rb name. mems_router_find_switch (snd rb) (fst rb) name"
  "\<lambda>rb p. sw_state (snd rb ! p)" bank_set "\<lambda>rb. router_wf (snd rb) (fst rb)" legal_state
proof
  fix b :: "mems_router \<times> bank" and p c name
  assume wf: "router_wf (snd b) (fst b)"
  show "router_wf (snd (bank_set b p c)) (fst (bank_set b p c))"
    using wf by (simp add: bank_set_def router_wf_def)
  show "mems_router_find_switch (snd (bank_set b p c)) (fst (bank_set b p c)) name =
        mems_router_find_switch (snd b) (fst b) name"
    by (simp add: bank_set_def set_state_switch find_switch_update)
  show "sw_state (snd (bank_set b p c) ! q) = sw_state (snd b ! q)" if "q \<noteq> p" for q
    using that by (simp add: bank_set_def)
  show "sw_state (snd (bank_set b p c) ! p) = c"
    if "mems_router_find_switch (snd b) (fst b) name = Some p" "legal_state c"
    using that router_wf_pointer [OF wf that(1)] by (simp add: bank_set_def set_state_switch)
qed

section \<open>The latched position\<close>

text \<open>
  A switch is a latching relay: its position is the side whose pin was last driven high. The
  position can be read off the history of the board alone; \<open>U\<close> before the first pulse.
\<close>

fun latch_event :: "device \<Rightarrow> u8 \<Rightarrow> u8 \<Rightarrow> char \<Rightarrow> io_event \<Rightarrow> char" where
  "latch_event d a b c (Gpio_pin_set d' pin v) =
     (if d' = d \<and> v = 1 \<and> pin = a then CHR ''A''
      else if d' = d \<and> v = 1 \<and> pin = b then CHR ''B'' else c)"
| "latch_event d a b c _ = c"

definition latched :: "device \<Rightarrow> u8 \<Rightarrow> u8 \<Rightarrow> io \<Rightarrow> char" where
  "latched d a b h = foldl (latch_event d a b) CHR ''U'' h"

definition switch_pins :: "mems_switch \<Rightarrow> (device \<times> u8) list" where
  "switch_pins sw = [(gpio_dev sw, pin_a sw), (gpio_dev sw, pin_b sw)]"

definition pins_distinct :: "bank \<Rightarrow> bool" where
  "pins_distinct b \<longleftrightarrow> distinct (concat (map switch_pins b))"

definition bank_agrees :: "bank \<Rightarrow> io \<Rightarrow> bool" where
  "bank_agrees b h \<longleftrightarrow>
     (\<forall>sw \<in> set b. sw_state sw = latched (gpio_dev sw) (pin_a sw) (pin_b sw) h)"

lemma latched_append: "latched d a b (h @ h') = foldl (latch_event d a b) (latched d a b h) h'"
  by (simp add: latched_def)

lemma latched_pulse:
  "latched d a b (h @ pulse d' pin) =
     (if d' = d \<and> pin = a then CHR ''A'' else if d' = d \<and> pin = b then CHR ''B''
      else latched d a b h)"
  by (simp add: latched_append pulse_def)

lemma distinct_concat_disjoint:
  "distinct (concat xss) \<Longrightarrow> i < length xss \<Longrightarrow> j < length xss \<Longrightarrow> i \<noteq> j \<Longrightarrow>
     set (xss ! i) \<inter> set (xss ! j) = {}"
proof (induction xss arbitrary: i j)
  case (Cons xs xss)
  have disj: "set xs \<inter> set (xss ! k) = {}" if "k < length xss" for k
  proof -
    have "set (xss ! k) \<subseteq> set (concat xss)" using nth_mem [OF that] by auto
    moreover have "set xs \<inter> set (concat xss) = {}" using Cons.prems(1) by simp
    ultimately show ?thesis by blast
  qed
  consider "i = 0" "j \<noteq> 0" | "i \<noteq> 0" "j = 0" | "i \<noteq> 0" "j \<noteq> 0"
    using Cons.prems(4) by (metis neq0_conv)
  then show ?case
  proof cases
    case 3
    then obtain i' j' where ij: "i = Suc i'" "j = Suc j'" by (metis not0_implies_Suc)
    have "distinct (concat xss)" "i' < length xss" "j' < length xss" "i' \<noteq> j'"
      using Cons.prems ij by simp_all
    from Cons.IH [OF this] ij show ?thesis by simp
  next
    case 1
    then obtain j' where "j = Suc j'" by (metis not0_implies_Suc)
    with 1 Cons.prems disj [of j'] show ?thesis by simp
  next
    case 2
    then obtain i' where "i = Suc i'" by (metis not0_implies_Suc)
    with 2 Cons.prems disj [of i'] show ?thesis by (simp add: Int_commute)
  qed
qed simp

lemma pins_distinct_nth:
  assumes "pins_distinct b" and "i < length b" and "j < length b" and "i \<noteq> j"
  shows "set (switch_pins (b ! i)) \<inter> set (switch_pins (b ! j)) = {}"
  using distinct_concat_disjoint [of "map switch_pins b" i j] assms
  by (simp add: pins_distinct_def)

lemma pins_distinct_own:
  assumes "pins_distinct b" and "i < length b"
  shows "pin_a (b ! i) \<noteq> pin_b (b ! i)"
proof -
  have "distinct (switch_pins (b ! i))"
    using assms by (auto simp: pins_distinct_def distinct_concat_iff)
  then show ?thesis by (simp add: switch_pins_def)
qed

lemma pins_distinct_update:
  assumes "switch_pins sw = switch_pins (b ! p)"
  shows "pins_distinct (b[p := sw]) = pins_distinct b"
proof -
  have "map switch_pins (b[p := sw]) = map switch_pins b"
    using assms by (metis list_update_id map_update)
  then show ?thesis by (simp add: pins_distinct_def)
qed

lemma set_state_fields:
  assumes "mems_switch_set_state sw c h = (rc, sw', h')"
  shows "switch_pins sw' = switch_pins sw \<and> sw_name sw' = sw_name sw \<and>
         gpio_dev sw' = gpio_dev sw \<and> pin_a sw' = pin_a sw \<and> pin_b sw' = pin_b sw"
  using assms by (auto simp: mems_switch_set_state_def switch_pins_def split: if_splits)

lemma set_state_agrees:
  assumes pins: "pins_distinct b" and agrees: "bank_agrees b h" and p: "p < length b"
    and set: "mems_switch_set_state (b ! p) c h = (rc, sw', h')"
  shows "bank_agrees (b[p := sw']) h'"
proof (cases "legal_state c")
  case False
  with set have "sw' = b ! p" "h' = h"
    by (auto simp: mems_switch_set_state_def legal_state_def split: if_splits)
  with agrees show ?thesis by simp
next
  case True
  let ?pin = "if c = CHR ''A'' then pin_a (b ! p) else pin_b (b ! p)"
  from True set have sw': "sw' = (b ! p)\<lparr>sw_state := c\<rparr>" and h': "h' = h @ pulse (gpio_dev (b ! p)) ?pin"
    by (auto simp: mems_switch_set_state_def legal_state_def split: if_splits)
  have own: "pin_a (b ! p) \<noteq> pin_b (b ! p)"
    using pins p by (rule pins_distinct_own)
  show ?thesis unfolding bank_agrees_def
  proof
    fix sw assume "sw \<in> set (b[p := sw'])"
    then obtain i where i: "i < length b" "sw = b[p := sw'] ! i"
      by (auto simp: in_set_conv_nth)
    show "sw_state sw = latched (gpio_dev sw) (pin_a sw) (pin_b sw) h'"
    proof (cases "i = p")
      case True
      with i p own \<open>legal_state c\<close> show ?thesis
        by (auto simp: sw' h' latched_pulse legal_state_def)
    next
      case False
      with i have sw: "sw = b ! i" by simp
      from pins_distinct_nth [OF pins i(1) p False] agrees i(1) show ?thesis
        unfolding sw h' latched_pulse bank_agrees_def switch_pins_def by (auto split: if_splits)
    qed
  qed
qed

section \<open>Properties\<close>

text \<open>
  C19: \<open>mems_router_active_routes\<close>, two nested loops with a \<open>break\<close> and a capacity, returns the keys
  of exactly the routes all of whose switches are found in the expected state, in the order of
  definition, cut at the capacity.
\<close>

theorem active_routes_spec:
  "mems_router_active_routes b r max_keys =
     take (unat max_keys) (map route_key (filter (route_active b r) (router_routes r)))"
  by (simp add: mems_router_active_routes_def active_routes_from_filter steps_match_active)

text \<open>
  Setting a switch succeeds exactly for the states A and B. It then records the state and pulses
  the pin of that side once, low-high-low with the pulse delay after each edge, and touches no other
  pin; any other state is refused with -1, the switch and the board unchanged.
\<close>

theorem set_state_spec:
  "mems_switch_set_state sw st h =
     (if st = CHR ''A'' \<or> st = CHR ''B''
      then let pin = (if st = CHR ''A'' then pin_a sw else pin_b sw)
           in (0, sw\<lparr>sw_state := st\<rparr>,
               h @ concat (map (\<lambda>level. [Gpio_pin_set (gpio_dev sw) pin level, K_sleep 2]) [0, 1, 0]))
      else (-1, sw, h)) \<and>
   mems_switch_get_state (Some (fst (snd (mems_switch_set_state sw st h)))) (Some old) =
     (if st = CHR ''A'' \<or> st = CHR ''B'' then (0, Some st)
      else mems_switch_get_state (Some sw) (Some old))"
  by (simp add: mems_switch_set_state_def mems_switch_get_state_def pulse_def
      MEMS_SWITCH_PULSE_DELAY_MS_def Let_def)

text \<open>
  Defining a route keeps the router well formed, and a lookup afterwards finds the new route
  exactly when no route defined earlier answers to the same pair of names: the first definition wins.
\<close>

theorem define_route_spec:
  assumes "router_wf b r"
    and "mems_router_define_route r (Some i) (Some ou) (Some ss) num = Some (0, r')"
  shows "router_wf b r' \<and>
    mems_router_get_route r' inp out =
      (case mems_router_get_route r inp out of
         Some rt \<Rightarrow> Some rt
       | None \<Rightarrow> if same_name i inp \<and> same_name ou out
                 then Some \<lparr>route_key = \<lparr>input_name = i, output_name = ou\<rparr>,
                            route_steps = take (unat num) ss\<rparr>
                 else None)"
  using define_route_wf [OF assms] define_route_get [OF assms(2)] by simp

theorem define_route_spec_witness:
  "\<exists>r'. mems_router_define_route \<lparr>router_switches = [], router_routes = []\<rparr> (Some ''in'') (Some ''out'')
          (Some [\<lparr>switch_name = ''sw'', step_state = CHR ''B''\<rparr>]) 1 = Some (0, r') \<and>
        router_wf [] r' \<and> mems_router_get_route r' ''in'' ''out'' \<noteq> None"
proof -
  let ?r = "\<lparr>router_switches = [], router_routes = []\<rparr>"
  obtain r' where r': "mems_router_define_route ?r (Some ''in'') (Some ''out'')
          (Some [\<lparr>switch_name = ''sw'', step_state = CHR ''B''\<rparr>]) 1 = Some (0, r')"
    by (simp add: mems_router_define_route_def tib_defs)
  have "router_wf [] ?r" by (simp add: router_wf_def)
  from define_route_spec [OF this r', of "''in''" "''out''"] r' show ?thesis
    by (simp add: mems_router_get_route_def)
qed

end
