(* ===== verification/Attenuator.thy ===== *)
theory Attenuator
  imports Platform
begin

text \<open>
  \<open>app/src/attenuator.c\<close> and \<open>.h\<close>: a DAC channel driven either with a voltage or, through a
  quadratic calibration, with an attenuation in dB. All arithmetic is on C \<open>double\<close>s; the two
  coefficient arrays are lists of length three. A result \<open>None\<close> is undefined behaviour: the
  conversion of a NaN to \<open>uint32_t\<close>.
\<close>

definition DAC_RESOLUTION_BITS :: nat where [tib_defs]: "DAC_RESOLUTION_BITS = 12"
definition DAC_MAX_CODE :: int where [tib_defs]: "DAC_MAX_CODE = 2 ^ DAC_RESOLUTION_BITS - 1"
definition MAX_VOLTAGE :: fp where "MAX_VOLTAGE = f64_lit (4096 / 1000)"

record dac_channel_cfg =
  channel_id :: u8
  resolution :: u8
  buffered :: bool

record attenuator =
  coeff_db_to_volt :: "fp list"
  coeff_volt_to_db :: "fp list"
  voltage :: fp
  cfg :: dac_channel_cfg

text \<open>The build does not define \<open>CONFIG_DAC_BUFFER_NOT_SUPPORT\<close>.\<close>

definition attenuator_init :: "attenuator \<Rightarrow> u8 \<Rightarrow> attenuator" where
  "attenuator_init drv channel =
     drv\<lparr>voltage := Num 0,
         cfg := \<lparr>channel_id = channel, resolution = of_nat DAC_RESOLUTION_BITS, buffered = True\<rparr>\<rparr>"

text \<open>Static storage starts as all zero bits.\<close>

definition zero_attenuator :: attenuator where
  "zero_attenuator =
     \<lparr>coeff_db_to_volt = [Num 0, Num 0, Num 0], coeff_volt_to_db = [Num 0, Num 0, Num 0],
      voltage = Num 0, cfg = \<lparr>channel_id = 0, resolution = 0, buffered = False\<rparr>\<rparr>"

definition requested_voltage :: "attenuator \<Rightarrow> fp \<Rightarrow> bool \<Rightarrow> fp" where
  "requested_voltage drv value raw =
     (if raw then value
      else fadd binary64
             (fadd binary64 (coeff_db_to_volt drv ! 0)
               (fmul binary64 (fmul binary64 (coeff_db_to_volt drv ! 2) value) value))
             (fmul binary64 (coeff_db_to_volt drv ! 1) value))"

definition clamp_voltage :: "fp \<Rightarrow> fp" where
  "clamp_voltage v = (if flt v (Num 0) then Num 0 else if flt MAX_VOLTAGE v then MAX_VOLTAGE else v)"

definition dac_code :: "fp \<Rightarrow> nat option" where
  "dac_code v = fp_to_uint 32 (fmul binary64 (fdiv binary64 v MAX_VOLTAGE) (fp_of_int binary64 DAC_MAX_CODE))"

definition attenuator_set ::
  "platform \<Rightarrow> attenuator \<Rightarrow> fp \<Rightarrow> bool \<Rightarrow> io \<Rightarrow> (bool \<times> attenuator \<times> io) option" where
  "attenuator_set P drv value raw h =
     (let drv = drv\<lparr>voltage := clamp_voltage (requested_voltage drv value raw)\<rparr>;
          ch = channel_id (cfg drv)
      in if \<not> dac_ready P then Some (False, drv, h)
         else let h = h @ [Dac_channel_setup ch]
              in if dac_setup_rc P h \<noteq> 0 then Some (False, drv, h)
                 else case dac_code (voltage drv) of
                        None \<Rightarrow> None
                      | Some code \<Rightarrow>
                          let h = h @ [Dac_write_value ch code]
                          in Some (dac_write_rc P h = 0, drv, h))"

definition attenuator_get :: "attenuator \<Rightarrow> bool \<Rightarrow> bool \<times> fp" where
  "attenuator_get drv raw =
     (True,
      if raw then voltage drv
      else fadd binary64
             (fadd binary64 (coeff_volt_to_db drv ! 0)
               (fmul binary64 (fmul binary64 (voltage drv) (voltage drv)) (coeff_volt_to_db drv ! 2)))
             (fmul binary64 (voltage drv) (coeff_volt_to_db drv ! 1)))"

section \<open>The DAC code\<close>

lemma MAX_VOLTAGE_val: "MAX_VOLTAGE = Num (1152921504606847 / 281474976710656)"
  unfolding MAX_VOLTAGE_def f64_lit_def by code_simp

lemma DAC_MAX_CODE_val: "fp_of_int binary64 DAC_MAX_CODE = Num 4095"
  by code_simp

lemma binary64_simps [simp]:
  "prec binary64 = 53" "ulp_min binary64 = -1074" "e_top binary64 = 1024"
  by (simp_all add: binary64_def)

definition volt_in_range :: "fp \<Rightarrow> bool" where
  "volt_in_range v \<longleftrightarrow> is_finite v \<and> 0 \<le> fval v \<and> fval v \<le> fval MAX_VOLTAGE"

lemma fits64_small: "\<bar>i\<bar> \<le> 4095 \<Longrightarrow> fits binary64 (of_int i) \<and> of_int i < (2::rat) powi e_top binary64"
proof -
  assume "\<bar>i\<bar> \<le> 4095"
  then have "(of_int i :: rat) \<le> of_int 4095" by linarith
  also have "(of_int 4095 :: rat) < 2 powi 53" by (simp add: power_int_def)
  finally have i: "(of_int i :: rat) < 2 powi 53" .
  moreover have "(2::rat) powi 53 \<le> 2 powi 1024" by (rule powi_mono) simp
  ultimately show ?thesis by (auto intro!: fits_int)
qed

lemma dac_ratio:
  assumes "volt_in_range v"
  shows "fdiv binary64 v MAX_VOLTAGE = fround binary64 (fsign v) (fval v / fval MAX_VOLTAGE)"
    and "0 \<le> fval v / fval MAX_VOLTAGE" and "fval v / fval MAX_VOLTAGE \<le> 1"
  using assms by (cases v; simp add: volt_in_range_def fdiv_def MAX_VOLTAGE_val)+

lemma dac_scaled:
  assumes "volt_in_range v"
  defines "x \<equiv> fdiv binary64 v MAX_VOLTAGE"
  shows "\<exists>s. fmul binary64 x (fp_of_int binary64 DAC_MAX_CODE) = fround binary64 s (fval x * 4095)"
    and "0 \<le> fval x" and "fval x \<le> 1"
proof -
  have "is_finite x \<and> 0 \<le> fval x \<and> fval x \<le> 1"
    unfolding x_def dac_ratio(1) [OF assms(1)]
    using dac_ratio(2,3) [OF assms(1)] fits64_small [of 1]
    by (intro fround_nonneg_le) auto
  then show "0 \<le> fval x" "fval x \<le> 1"
    "\<exists>s. fmul binary64 x (fp_of_int binary64 DAC_MAX_CODE) = fround binary64 s (fval x * 4095)"
    by (cases x; auto simp: fmul_def DAC_MAX_CODE_val)+
qed

lemma dac_code_value:
  assumes "volt_in_range v"
  obtains s where
    "dac_code v = Some (nat \<lfloor>fval (fround binary64 s (fval (fdiv binary64 v MAX_VOLTAGE) * 4095))\<rfloor>)"
    "0 \<le> fval (fround binary64 s (fval (fdiv binary64 v MAX_VOLTAGE) * 4095))"
    "fval (fround binary64 s (fval (fdiv binary64 v MAX_VOLTAGE) * 4095)) \<le> 4095"
proof -
  let ?x = "fval (fdiv binary64 v MAX_VOLTAGE)"
  obtain s where s: "fmul binary64 (fdiv binary64 v MAX_VOLTAGE) (fp_of_int binary64 DAC_MAX_CODE)
      = fround binary64 s (?x * 4095)"
    using dac_scaled(1) [OF assms] by blast
  have b: "is_finite (fround binary64 s (?x * 4095)) \<and> 0 \<le> fval (fround binary64 s (?x * 4095)) \<and>
      fval (fround binary64 s (?x * 4095)) \<le> 4095"
    using dac_scaled(2,3) [OF assms] fits64_small [of 4095] by (intro fround_nonneg_le) auto
  then have "\<lfloor>fval (fround binary64 s (?x * 4095))\<rfloor> \<le> 4095" by linarith
  with b s show thesis
    by (intro that) (auto simp: dac_code_def fp_to_uint_def trunc_rat_def Let_def)
qed

lemma dac_code_bound: "volt_in_range v \<Longrightarrow> \<exists>c. dac_code v = Some c \<and> c \<le> 4095"
  by (erule dac_code_value) (auto simp: nat_le_iff floor_le_iff intro: le_less_trans)

lemma dac_code_mono:
  assumes v: "volt_in_range v" and w: "volt_in_range w" and le: "fval v \<le> fval w"
  shows "\<exists>c d. dac_code v = Some c \<and> dac_code w = Some d \<and> c \<le> d"
proof -
  have "fval (fdiv binary64 v MAX_VOLTAGE) \<le> fval (fdiv binary64 w MAX_VOLTAGE)"
    unfolding dac_ratio(1) [OF v] dac_ratio(1) [OF w]
    by (rule fval_fround_mono [where b = 1])
       (use dac_ratio(2,3) [OF v] dac_ratio(2,3) [OF w] fits64_small [of 1] le in
         \<open>auto simp: MAX_VOLTAGE_val divide_right_mono\<close>)
  then have "fval (fround binary64 s (fval (fdiv binary64 v MAX_VOLTAGE) * 4095))
      \<le> fval (fround binary64 t (fval (fdiv binary64 w MAX_VOLTAGE) * 4095))" for s t
    by (intro fval_fround_mono [where b = 4095])
       (use dac_scaled(2,3) [OF v] dac_scaled(2,3) [OF w] fits64_small [of 4095] in auto)
  then show ?thesis
    by (metis dac_code_value [OF v] dac_code_value [OF w] floor_mono nat_mono)
qed

lemma clamp_voltage_range: "clamp_voltage v = NaN \<and> v = NaN \<or> volt_in_range (clamp_voltage v)"
proof (cases "v = NaN")
  case False
  then show ?thesis
    by (cases v) (auto simp: clamp_voltage_def volt_in_range_def MAX_VOLTAGE_val)
qed (simp add: clamp_voltage_def MAX_VOLTAGE_val)

lemma dac_code_NaN: "dac_code NaN = None"
  by (simp add: dac_code_def fdiv_def fmul_def fp_to_uint_def)

section \<open>Properties\<close>

text \<open>
  C16: whatever the platform, the calibration and the request, if the requested voltage is a number
  then the set returns; the voltage it records, which a raw read returns, is the request clamped and
  lies between 0 and the maximum, the calibration is kept, and the board sees nothing, the channel
  setup alone, or the setup and one write to this channel of a code of at most 12 bits.
\<close>

theorem attenuator_set_safe:
  assumes "requested_voltage drv value raw \<noteq> NaN"
  shows "\<exists>ok drv' h' code.
    attenuator_set P drv value raw h = Some (ok, drv', h') \<and>
    attenuator_get drv' True = (True, clamp_voltage (requested_voltage drv value raw)) \<and>
    volt_in_range (voltage drv') \<and>
    drv' = drv\<lparr>voltage := voltage drv'\<rparr> \<and> code \<le> 4095 \<and>
    h' \<in> {h, h @ [Dac_channel_setup (channel_id (cfg drv))],
           h @ [Dac_channel_setup (channel_id (cfg drv)), Dac_write_value (channel_id (cfg drv)) code]} \<and>
    (ok = (dac_ready P \<and> dac_setup_rc P (h @ [Dac_channel_setup (channel_id (cfg drv))]) = 0 \<and>
           dac_write_rc P h' = 0))"
proof -
  let ?v = "clamp_voltage (requested_voltage drv value raw)"
  have r: "volt_in_range ?v" using clamp_voltage_range [of "requested_voltage drv value raw"] assms by blast
  from dac_code_bound [OF this] obtain c where c: "dac_code ?v = Some c" "c \<le> 4095" by blast
  show ?thesis
    by (cases "dac_ready P \<and> dac_setup_rc P (h @ [Dac_channel_setup (channel_id (cfg drv))]) = 0")
       (use r c in \<open>auto simp: attenuator_set_def attenuator_get_def Let_def intro!: exI [of _ c]\<close>)
qed

theorem attenuator_set_safe_witness:
  "requested_voltage (attenuator_init zero_attenuator 2) (Num 9) True \<noteq> NaN \<and>
   (\<exists>ok drv' h'. attenuator_set quiet_platform (attenuator_init zero_attenuator 2) (Num 9) True [] =
                  Some (ok, drv', h') \<and> volt_in_range (voltage drv'))"
proof -
  have h: "requested_voltage (attenuator_init zero_attenuator 2) (Num 9) True \<noteq> NaN"
    by (simp add: requested_voltage_def)
  from attenuator_set_safe [OF h, of quiet_platform "[]"] h show ?thesis by blast
qed

text \<open>
  C37: the only undefined behaviour of a set is a NaN that reaches the conversion to a DAC code. The
  clamp does not stop it, because both of its comparisons fail; every other request is defined.
\<close>

theorem attenuator_set_undefined_iff:
  "attenuator_set P drv value raw h = None \<longleftrightarrow>
     requested_voltage drv value raw = NaN \<and> dac_ready P \<and>
     dac_setup_rc P (h @ [Dac_channel_setup (channel_id (cfg drv))]) = 0"
proof (cases "requested_voltage drv value raw = NaN")
  case True
  then show ?thesis
    by (simp add: attenuator_set_def Let_def clamp_voltage_def dac_code_NaN)
next
  case False
  then have "volt_in_range (clamp_voltage (requested_voltage drv value raw))"
    using clamp_voltage_range by blast
  from dac_code_bound [OF this] False show ?thesis
    by (auto simp: attenuator_set_def Let_def)
qed

text \<open>
  Driving an attenuator with a higher voltage never writes a lower code, 0 V and below write
  code 0, and the maximum and above write the full-scale code 4095.
\<close>

theorem dac_code_monotone:
  "(v \<noteq> NaN \<longrightarrow> w \<noteq> NaN \<longrightarrow> \<not> flt w v \<longrightarrow>
      (\<exists>c d. dac_code (clamp_voltage v) = Some c \<and> dac_code (clamp_voltage w) = Some d \<and> c \<le> d)) \<and>
   (flt v (Num 0) \<longrightarrow> dac_code (clamp_voltage v) = Some 0) \<and>
   (flt MAX_VOLTAGE v \<longrightarrow> dac_code (clamp_voltage v) = Some 4095)"
proof (intro conjI impI)
  assume nan: "v \<noteq> NaN" "w \<noteq> NaN" and le: "\<not> flt w v"
  then have r: "volt_in_range (clamp_voltage v)" "volt_in_range (clamp_voltage w)"
    using clamp_voltage_range by blast+
  have "fval (clamp_voltage v) \<le> fval (clamp_voltage w)"
    using nan le by (cases v; cases w) (auto simp: clamp_voltage_def MAX_VOLTAGE_val)
  with r show "\<exists>c d. dac_code (clamp_voltage v) = Some c \<and> dac_code (clamp_voltage w) = Some d \<and> c \<le> d"
    by (rule dac_code_mono)
next
  have "dac_code (Num 0) = Some 0" by code_simp
  then show "dac_code (clamp_voltage v) = Some 0" if "flt v (Num 0)"
    using that by (simp add: clamp_voltage_def)
next
  have "fround binary64 False 1 = Num 1" and "fround binary64 False 4095 = Num 4095" by code_simp+
  then have "dac_code (Num (1152921504606847 / 281474976710656)) = Some 4095"
    by (simp add: dac_code_def MAX_VOLTAGE_val DAC_MAX_CODE_val fdiv_def fmul_def fp_to_uint_def trunc_rat_def)
  moreover assume "flt MAX_VOLTAGE v"
  ultimately show "dac_code (clamp_voltage v) = Some 4095"
    by (cases v) (auto simp: clamp_voltage_def MAX_VOLTAGE_val)
qed

theorem dac_code_monotone_witness:
  "\<exists>c d. dac_code (clamp_voltage (Num 1)) = Some c \<and> dac_code (clamp_voltage (Num 5)) = Some d \<and> c \<le> d"
  using dac_code_monotone [of "Num 1" "Num 5"] by simp

end
