(* ===== verification/Devices.thy ===== *)
theory Devices
  imports Mems_Switching Attenuator
begin

text \<open>
  \<open>app/src/devices.c\<close> and \<open>.h\<close>: the global objects of the application, the table of routes of the
  telescope interface box, and the initialisation that \<open>main\<close> runs before anything else.
\<close>

definition NUM_ATTENUATORS :: nat where [tib_defs]: "NUM_ATTENUATORS = 6"

text \<open>The global variables; \<open>history\<close> is what the board has seen.\<close>

record tib =
  mems_switches :: bank
  mems_switch_ptrs :: "nat list"
  router :: mems_router
  attenuators :: "attenuator list"
  history :: io

definition zero_switch :: mems_switch where
  "zero_switch = \<lparr>gpio_dev = '''', pin_a = 0, pin_b = 0, sw_state = NUL,
                  sw_name = replicate MEMS_SWITCH_NAME_LEN NUL\<rparr>"

text \<open>Static storage before \<open>main\<close>.\<close>

definition tib_zero :: tib where
  "tib_zero = \<lparr>mems_switches = replicate MEMS_ROUTER_MAX_SWITCHES zero_switch, mems_switch_ptrs = [],
               router = \<lparr>router_switches = [], router_routes = []\<rparr>,
               attenuators = replicate NUM_ATTENUATORS zero_attenuator, history = []\<rparr>"

definition expander :: device where
  "expander = ''pcal6416a''"

definition switch_names :: "string list" where
  "switch_names =
     [''yj_cal_laser'', ''hk_cal_laser'',
      ''yj_ao_fei'', ''hk_ao_fei'',
      ''yj_forward_retro'', ''hk_forward_retro'',
      ''yj_mm_sm'', ''hk_mm_sm'']"

definition mems_switch_pin_pairs :: "(u8 \<times> u8) list" where
  "mems_switch_pin_pairs =
     [(0, 1), (2, 3), (4, 5), (6, 7), (8, 9), (10, 11), (12, 13), (14, 15)]"

section \<open>The routes\<close>

definition step_to :: "string \<Rightarrow> char \<Rightarrow> mems_route_step" where
  "step_to name c = \<lparr>switch_name = name, step_state = c\<rparr>"

definition route_table :: "(string \<times> string \<times> mems_route_step list \<times> u8) list" where
  "route_table =
     [(''yj_1430'', ''yj_ao'',
         [step_to ''yj_cal_laser'' CHR ''B'', step_to ''yj_forward_retro'' CHR ''A'', step_to ''yj_ao_fei'' CHR ''A''], 3),
      (''yj_1430'', ''yj_fei'',
         [step_to ''yj_cal_laser'' CHR ''B'', step_to ''yj_forward_retro'' CHR ''A'', step_to ''yj_ao_fei'' CHR ''B''], 3),
      (''yj_cal'', ''yj_ao'', [step_to ''yj_cal_laser'' CHR ''A'', step_to ''yj_ao_fei'' CHR ''A''], 2),
      (''yj_cal'', ''yj_fei'', [step_to ''yj_cal_laser'' CHR ''A'', step_to ''yj_ao_fei'' CHR ''B''], 2),
      (''yj_laser'', ''yj_ao'', [step_to ''yj_cal_laser'' CHR ''B'', step_to ''yj_ao_fei'' CHR ''A''], 2),
      (''yj_laser'', ''yj_fei'', [step_to ''yj_cal_laser'' CHR ''B'', step_to ''yj_ao_fei'' CHR ''B''], 2),
      (''yj_mm'', ''yj_pd'', [step_to ''yj_mm_sm'' CHR ''A''], 1),
      (''yj_sm'', ''yj_pd'', [step_to ''yj_mm_sm'' CHR ''B''], 1),
      (''hk_1430'', ''hk_ao'',
         [step_to ''hk_cal_laser'' CHR ''B'', step_to ''hk_forward_retro'' CHR ''A'', step_to ''hk_ao_fei'' CHR ''A''], 3),
      (''hk_1430'', ''hk_fei'',
         [step_to ''hk_cal_laser'' CHR ''B'', step_to ''hk_forward_retro'' CHR ''A'', step_to ''hk_ao_fei'' CHR ''B''], 3),
      (''hk_cal'', ''hk_ao'', [step_to ''hk_cal_laser'' CHR ''A'', step_to ''hk_ao_fei'' CHR ''A''], 2),
      (''hk_cal'', ''hk_fei'', [step_to ''hk_cal_laser'' CHR ''A'', step_to ''hk_ao_fei'' CHR ''B''], 2),
      (''hk_laser'', ''hk_ao'', [step_to ''hk_cal_laser'' CHR ''B'', step_to ''hk_ao_fei'' CHR ''A''], 2),
      (''hk_laser'', ''hk_fei'', [step_to ''hk_cal_laser'' CHR ''B'', step_to ''hk_ao_fei'' CHR ''B''], 2),
      (''hk_mm'', ''hk_pd'', [step_to ''hk_mm_sm'' CHR ''A''], 1),
      (''hk_sm'', ''hk_pd'', [step_to ''hk_mm_sm'' CHR ''B''], 1)]"

section \<open>Initialisation\<close>

text \<open>One round of the loop that initialises the switches and the pointer table.\<close>

definition init_switch :: "bank \<times> nat list \<times> io \<Rightarrow> nat \<Rightarrow> bank \<times> nat list \<times> io" where
  "init_switch s i =
     (let (b, ptrs, h) = s;
          (sw, h) = mems_switch_init (b ! i) expander (fst (mems_switch_pin_pairs ! i))
                      (snd (mems_switch_pin_pairs ! i)) (switch_names ! i) h
      in (b[i := sw], ptrs @ [i], h))"

text \<open>
  The sixteen calls of \<open>mems_router_define_route\<close>, in the order of the sources, their results
  ignored as the sources ignore them. \<open>None\<close> is an out-of-bounds read in one of the calls.
\<close>

fun define_routes ::
  "mems_router \<Rightarrow> (string \<times> string \<times> mems_route_step list \<times> u8) list \<Rightarrow> mems_router option" where
  "define_routes r [] = Some r"
| "define_routes r ((i, ou, ss, n) # rts) =
     (case mems_router_define_route r (Some i) (Some ou) (Some ss) n of
        None \<Rightarrow> None
      | Some (rc, r') \<Rightarrow> define_routes r' rts)"

definition setup_mems_switches_and_routes :: "platform \<Rightarrow> tib \<Rightarrow> tib option" where
  "setup_mems_switches_and_routes P s =
     (if \<not> expander_ready P then Some s
      else let (b, ptrs, h) = foldl init_switch (mems_switches s, [], history s) [0..<8]
           in case mems_router_init (router s) ptrs 8 of
                None \<Rightarrow> None
              | Some r \<Rightarrow>
                  (case define_routes r route_table of
                     None \<Rightarrow> None
                   | Some r' \<Rightarrow> Some (s\<lparr>mems_switches := b, mems_switch_ptrs := ptrs,
                                        router := r', history := h\<rparr>)))"

definition setup_attenuators :: "tib \<Rightarrow> tib" where
  "setup_attenuators s =
     s\<lparr>attenuators := foldl (\<lambda>as i. as[i := attenuator_init (as ! i) (of_nat i)]) (attenuators s) [0..<6]\<rparr>"

text \<open>
  \<open>rc\<close> is a \<open>bool\<close> in the sources: an assignment of an \<open>int\<close> to it keeps only whether it is
  non-zero. The three device pointers come from \<open>DEVICE_DT_GET\<close> and are never null.
\<close>

definition setup_modbus_client :: "platform \<Rightarrow> io \<Rightarrow> bool \<times> io" where
  "setup_modbus_client P h = (let h = h @ [Modbus_init] in (modbus_init_rc P h = 0, h))"

definition devices_ready :: "platform \<Rightarrow> io \<Rightarrow> bool \<times> io" where
  "devices_ready P h =
     (let (rc, h) = (if \<not> gpio_dt_ready P then (True, h)
                     else let h = h @ [Power_configure] in (power_configure_rc P h \<noteq> 0, h));
          (ok, h) = setup_modbus_client P h;
          rc = (if (if ok then 1 else 0) \<noteq> (0::int) then False else rc);
          rc = (if \<not> dac_ready P then False else rc);
          rc = (if \<not> adc_ready P then False else rc);
          rc = (if \<not> expander_ready P then False else rc)
      in (rc, h))"

section \<open>The state after initialisation\<close>

definition padded :: "string \<Rightarrow> string" where
  "padded name = name @ replicate (MEMS_SWITCH_NAME_LEN - length name) NUL"

definition booted_switches :: bank where
  "booted_switches =
     map (\<lambda>(name, (a, b)). \<lparr>gpio_dev = expander, pin_a = a, pin_b = b, sw_state = CHR ''U'',
                             sw_name = padded name\<rparr>)
       (zip switch_names mems_switch_pin_pairs)"

definition booted_router :: mems_router where
  "booted_router =
     \<lparr>router_switches = [0..<8],
      router_routes = map (\<lambda>(i, ou, ss, n). \<lparr>route_key = \<lparr>input_name = i, output_name = ou\<rparr>,
                                             route_steps = ss\<rparr>) route_table\<rparr>"

definition booted_io :: io where
  "booted_io = concat (map (\<lambda>(a, b). [Gpio_pin_configure expander a, Gpio_pin_configure expander b])
                        mems_switch_pin_pairs)"

lemma init_switches_eval0:
  "foldl init_switch (replicate MEMS_ROUTER_MAX_SWITCHES zero_switch, [], []) [0..<8] =
     (booted_switches, [0..<8], booted_io)"
  by code_simp

lemma init_switch_history:
  "init_switch (b, ptrs, h @ h') i = (case init_switch (b, ptrs, h') i of (b', ptrs', h'') \<Rightarrow> (b', ptrs', h @ h''))"
  by (simp add: init_switch_def mems_switch_init_def)

lemma init_switches_history:
  "foldl init_switch (b, ptrs, h) is =
     (case foldl init_switch (b, ptrs, []) is of (b', ptrs', h') \<Rightarrow> (b', ptrs', h @ h'))"
proof (induction "is" rule: rev_induct)
  case (snoc i "is")
  then show ?case
    by (cases "foldl init_switch (b, ptrs, []) is")
       (simp add: init_switch_history)
qed simp

lemma init_switches_eval:
  "foldl init_switch (replicate MEMS_ROUTER_MAX_SWITCHES zero_switch, [], h) [0..<8] =
     (booted_switches, [0..<8], h @ booted_io)"
  by (simp add: init_switches_history [of _ _ h] init_switches_eval0)

lemma define_routes_eval:
  "define_routes \<lparr>router_switches = [0..<8], router_routes = []\<rparr> route_table = Some booted_router"
  by code_simp

lemma router_init_eval:
  "mems_router_init r [0..<8] 8 = Some \<lparr>router_switches = [0..<8], router_routes = []\<rparr>"
  by (simp add: mems_router_init_def MEMS_ROUTER_MAX_SWITCHES_def)

definition booted :: "io \<Rightarrow> tib" where
  "booted h = setup_attenuators
     (tib_zero\<lparr>mems_switches := booted_switches, mems_switch_ptrs := [0..<8],
               router := booted_router, history := h @ booted_io\<rparr>)"

lemma setup_eval:
  "expander_ready P \<Longrightarrow>
   map_option setup_attenuators (setup_mems_switches_and_routes P (tib_zero\<lparr>history := h\<rparr>)) = Some (booted h)"
  by (simp add: setup_mems_switches_and_routes_def tib_zero_def init_switches_eval router_init_eval
      define_routes_eval booted_def)

lemma booted_facts:
  "router_wf booted_switches booted_router"
  "pins_distinct booted_switches"
  "map sw_name booted_switches = map padded switch_names"
  by code_simp+

lemma booted_latched: "bank_agrees booted_switches (h @ booted_io)" if "bank_agrees booted_switches h"
  using that by (simp add: bank_agrees_def latched_append booted_io_def mems_switch_pin_pairs_def)

lemma booted_attenuators:
  "attenuators (booted h) = map (\<lambda>i. attenuator_init zero_attenuator (of_nat i)) [0..<6]"
  by (simp add: booted_def tib_zero_def setup_attenuators_def NUM_ATTENUATORS_def upt_rec numeral_eq_Suc)

section \<open>Lookups in the booted router\<close>

definition tib_names :: "string list" where
  "tib_names = map padded switch_names"

definition tib_find :: "string \<Rightarrow> nat option" where
  "tib_find name = find (\<lambda>p. same_name (tib_names ! p) name) [0..<8]"

lemma length_tib_names [simp]: "length tib_names = 8"
  by (simp add: tib_names_def switch_names_def)

lemma tib_find_switch:
  assumes "map sw_name b = tib_names"
  shows "mems_router_find_switch b booted_router name = tib_find name"
proof -
  have len: "length b = 8" using arg_cong [OF assms, of length] by simp
  have "find (\<lambda>p. same_name (sw_name (b ! p)) name) ps = find (\<lambda>p. same_name (tib_names ! p) name) ps"
    if "set ps \<subseteq> {0..<8}" for ps
    using that
  proof (induction ps)
    case (Cons p ps)
    then have "sw_name (b ! p) = tib_names ! p" using len by (simp flip: assms)
    with Cons show ?case by simp
  qed simp
  from this [of "[0..<8]"] show ?thesis
    by (simp add: mems_router_find_switch_def find_switch_from_find tib_find_def booted_router_def)
qed

lemma tib_find_names [simp]:
  "tib_find ''yj_cal_laser'' = Some 0" "tib_find ''hk_cal_laser'' = Some 1"
  "tib_find ''yj_ao_fei'' = Some 2" "tib_find ''hk_ao_fei'' = Some 3"
  "tib_find ''yj_forward_retro'' = Some 4" "tib_find ''hk_forward_retro'' = Some 5"
  "tib_find ''yj_mm_sm'' = Some 6" "tib_find ''hk_mm_sm'' = Some 7"
  by code_simp+

definition step_ok :: "mems_route_step \<Rightarrow> bool" where
  "step_ok s \<longleftrightarrow> tib_find (switch_name s) \<noteq> None \<and> legal_state (step_state s)"

lemma booted_routes_ok:
  "\<forall>rt \<in> set (router_routes booted_router).
     (\<forall>s \<in> set (route_steps rt). step_ok s) \<and> distinct (map (tib_find \<circ> switch_name) (route_steps rt))"
  by code_simp

section \<open>Which routes can be active together\<close>

text \<open>
  Routes satisfied by an assignment \<open>f\<close> of states to the eight switches, from a summary of each route:
  the switch indices and states it asks for, and its key.
\<close>

type_synonym summary = "(nat \<times> char) list \<times> mems_route_key"

definition summarise :: "mems_route \<Rightarrow> summary" where
  "summarise rt =
     (map (\<lambda>s. (case tib_find (switch_name s) of Some p \<Rightarrow> p | None \<Rightarrow> 8, step_state s)) (route_steps rt),
      route_key rt)"

definition keys_with :: "(nat \<Rightarrow> char) \<Rightarrow> summary list \<Rightarrow> mems_route_key list" where
  "keys_with f us = map snd (filter (\<lambda>(cs, k). list_all (\<lambda>(p, c). f p = c) cs) us)"

lemma keys_with_append: "keys_with f (xs @ ys) = keys_with f xs @ keys_with f ys"
  by (simp add: keys_with_def)

lemma active_booted:
  assumes names: "map sw_name b = tib_names" and rts: "set rts \<subseteq> set (router_routes booted_router)"
  shows "map route_key (filter (route_active b booted_router) rts) =
         keys_with (\<lambda>p. sw_state (b ! p)) (map summarise rts)"
  using rts
proof (induction rts)
  case (Cons rt rts)
  then have "\<forall>s \<in> set (route_steps rt). \<exists>p. tib_find (switch_name s) = Some p"
    using booted_routes_ok by (auto simp: step_ok_def)
  then have "route_active b booted_router rt =
      (case summarise rt of (cs, k) \<Rightarrow> list_all (\<lambda>(p, c). sw_state (b ! p) = c) cs)"
    by (fastforce simp: route_active_def tib_find_switch [OF names] summarise_def list_all_iff)
  with Cons show ?case
    by (simp add: keys_with_def summarise_def)
qed (simp add: keys_with_def)

definition key_width :: "mems_route_key \<Rightarrow> nat" where
  "key_width k = length (input_name k) + length (output_name k) + 6"

definition half_ok :: "mems_route_key list \<Rightarrow> bool" where
  "half_ok ks \<longleftrightarrow> length ks \<le> 3 \<and> distinct (map input_name ks) \<and> sum_list (map key_width ks) \<le> 55"

text \<open>Only whether a switch is in state A, in state B or in neither matters: 81 cases for each half.\<close>

definition abu :: "char list" where
  "abu = [CHR ''A'', CHR ''B'', CHR ''U'']"

definition abu_of :: "char \<Rightarrow> char" where
  "abu_of c = (if c = CHR ''A'' \<or> c = CHR ''B'' then c else CHR ''U'')"

definition pick :: "char \<Rightarrow> char \<Rightarrow> char \<Rightarrow> char \<Rightarrow> nat \<Rightarrow> char" where
  "pick c d e g p = (if p < 2 then c else if p < 4 then d else if p < 6 then e else g)"

definition all_cases :: "summary list \<Rightarrow> bool" where
  "all_cases us \<longleftrightarrow>
     list_all (\<lambda>c. list_all (\<lambda>d. list_all (\<lambda>e. list_all (\<lambda>g. half_ok (keys_with (pick c d e g) us))
       abu) abu) abu) abu"

definition yj_summaries :: "summary list" where
  "yj_summaries = map summarise (take 8 (router_routes booted_router))"

definition hk_summaries :: "summary list" where
  "hk_summaries = map summarise (drop 8 (router_routes booted_router))"


lemma half_cases: "all_cases yj_summaries" "all_cases hk_summaries"
  by code_simp+

definition uses_switches :: "nat list \<Rightarrow> summary list \<Rightarrow> bool" where
  "uses_switches ps us \<longleftrightarrow>
     list_all (\<lambda>(cs, k). list_all (\<lambda>(p, c). p \<in> set ps \<and> legal_state c) cs) us"

lemma half_switches: "uses_switches [0, 2, 4, 6] yj_summaries" "uses_switches [1, 3, 5, 7] hk_summaries"
  by code_simp+

lemma keys_with_cong:
  assumes "uses_switches ps us" and "\<And>p c. p \<in> set ps \<Longrightarrow> legal_state c \<Longrightarrow> (f p = c) = (g p = c)"
  shows "keys_with f us = keys_with g us"
proof -
  have eq: "list_all (\<lambda>(p, c). f p = c) cs = list_all (\<lambda>(p, c). g p = c) cs" if "(cs, k) \<in> set us" for cs k
    using assms that by (fastforce simp: uses_switches_def list_all_iff)
  show ?thesis
    unfolding keys_with_def by (intro arg_cong [where f = "map snd"] filter_cong) (auto simp: eq)
qed

lemma abu_of_in: "abu_of c \<in> set abu"
  by (simp add: abu_of_def abu_def)

lemma abu_of_eq: "legal_state c \<Longrightarrow> (abu_of x = c) = (x = c)"
  by (auto simp: abu_of_def legal_state_def)

lemma all_cases_pick:
  "all_cases us \<Longrightarrow> half_ok (keys_with (pick (abu_of c) (abu_of d) (abu_of e) (abu_of g)) us)"
  by (simp add: all_cases_def list_all_iff abu_of_in)

lemma half_ok_all:
  "half_ok (keys_with f yj_summaries)" "half_ok (keys_with f hk_summaries)"
proof -
  have "keys_with f yj_summaries = keys_with (pick (abu_of (f 0)) (abu_of (f 2)) (abu_of (f 4)) (abu_of (f 6))) yj_summaries"
    by (rule keys_with_cong [OF half_switches(1)]) (auto simp: pick_def abu_of_eq)
  then show "half_ok (keys_with f yj_summaries)"
    using all_cases_pick [OF half_cases(1)] by simp
  have "keys_with f hk_summaries = keys_with (pick (abu_of (f 1)) (abu_of (f 3)) (abu_of (f 5)) (abu_of (f 7))) hk_summaries"
    by (rule keys_with_cong [OF half_switches(2)]) (auto simp: pick_def abu_of_eq)
  then show "half_ok (keys_with f hk_summaries)"
    using all_cases_pick [OF half_cases(2)] by simp
qed

lemma half_inputs:
  "set (map (input_name \<circ> snd) yj_summaries) \<inter> set (map (input_name \<circ> snd) hk_summaries) = {}"
proof -
  have "list_all (\<lambda>u. list_all (\<lambda>v. input_name (snd u) \<noteq> input_name (snd v)) hk_summaries) yj_summaries"
    by code_simp
  then show ?thesis by (auto simp: list_all_iff)
qed

lemma active_keys:
  assumes names: "map sw_name b = tib_names"
  shows "mems_router_active_routes b booted_router 18 =
    keys_with (\<lambda>p. sw_state (b ! p)) (yj_summaries @ hk_summaries)"
proof -
  have "length (router_routes booted_router) = 16" by code_simp
  then have "mems_router_active_routes b booted_router 18 =
      map route_key (filter (route_active b booted_router) (router_routes booted_router))"
    using length_filter_le [of "route_active b booted_router" "router_routes booted_router"]
    by (simp add: active_routes_from_filter mems_router_active_routes_def steps_match_active)
  also have "\<dots> = keys_with (\<lambda>p. sw_state (b ! p)) (map summarise (router_routes booted_router))"
    by (rule active_booted [OF names]) simp
  also have "map summarise (router_routes booted_router) = yj_summaries @ hk_summaries"
    unfolding yj_summaries_def hk_summaries_def by (metis append_take_drop_id map_append)
  finally show ?thesis .
qed

lemma keys_with_inputs: "set (map input_name (keys_with f us)) \<subseteq> set (map (input_name \<circ> snd) us)"
  by (auto simp: keys_with_def)

text \<open>At most six routes are active, no two from the same input, and their names are short.\<close>

lemma active_keys_bounds:
  assumes names: "map sw_name b = tib_names"
  defines "ks \<equiv> mems_router_active_routes b booted_router 18"
  shows "length ks \<le> 6" "distinct (map input_name ks)" "sum_list (map key_width ks) \<le> 110"
proof -
  let ?f = "\<lambda>p. sw_state (b ! p)"
  have ks: "ks = keys_with ?f yj_summaries @ keys_with ?f hk_summaries"
    unfolding ks_def active_keys [OF names] by (rule keys_with_append)
  have disj: "set (map input_name (keys_with ?f yj_summaries)) \<inter> set (map input_name (keys_with ?f hk_summaries)) = {}"
    using keys_with_inputs [of ?f yj_summaries] keys_with_inputs [of ?f hk_summaries] half_inputs by blast
  show "length ks \<le> 6" "distinct (map input_name ks)" "sum_list (map key_width ks) \<le> 110"
    using half_ok_all [of ?f] disj unfolding ks half_ok_def by auto
qed

section \<open>The invariant of the booted application\<close>

definition switches_inv :: "bank \<Rightarrow> io \<Rightarrow> bool" where
  "switches_inv b h \<longleftrightarrow>
     map sw_name b = tib_names \<and> pins_distinct b \<and> bank_agrees b h \<and>
     list_all (\<lambda>sw. sw_state sw \<in> set abu) b"

definition attenuators_inv :: "attenuator list \<Rightarrow> bool" where
  "attenuators_inv as \<longleftrightarrow>
     length as = NUM_ATTENUATORS \<and>
     list_all (\<lambda>i. channel_id (cfg (as ! i)) = of_nat i \<and> length (coeff_db_to_volt (as ! i)) = 3 \<and>
                   length (coeff_volt_to_db (as ! i)) = 3) [0..<NUM_ATTENUATORS]"

definition tib_inv :: "tib \<Rightarrow> bool" where
  "tib_inv s \<longleftrightarrow> router s = booted_router \<and> switches_inv (mems_switches s) (history s) \<and>
                attenuators_inv (attenuators s)"

text \<open>The three initialisation calls of \<open>main\<close>, the result of the first ignored.\<close>

definition boot :: "platform \<Rightarrow> tib option" where
  "boot P =
     (let (rc, h) = devices_ready P []
      in map_option setup_attenuators (setup_mems_switches_and_routes P (tib_zero\<lparr>history := h\<rparr>)))"

lemma booted_inv:
  assumes "bank_agrees booted_switches h"
  shows "tib_inv (booted h)"
proof -
  have "list_all (\<lambda>sw. sw_state sw \<in> set abu) booted_switches" by code_simp
  moreover have "attenuators_inv (attenuators (booted h))"
    unfolding booted_attenuators by code_simp
  ultimately show ?thesis
    using booted_latched [OF assms] booted_facts
    by (simp add: tib_inv_def switches_inv_def booted_def setup_attenuators_def tib_names_def)
qed

lemma devices_ready_history:
  "snd (devices_ready P h) = h @ (if gpio_dt_ready P then [Power_configure, Modbus_init] else [Modbus_init])"
  by (simp add: devices_ready_def setup_modbus_client_def Let_def split: prod.split)

lemma boot_latched: "bank_agrees booted_switches (snd (devices_ready P []))"
proof -
  have "bank_agrees booted_switches []" by code_simp
  then show ?thesis
    unfolding devices_ready_history by (simp add: bank_agrees_def latched_def)
qed

section \<open>Properties\<close>


text \<open>
  In every state of the application at most six routes are active together (the declared maximum),
  no two of them start at the same input, and their names take at most 110 bytes with the six bytes of
  punctuation each has in a reply.
\<close>

theorem active_routes_bounded:
  assumes "tib_inv s"
  defines "ks \<equiv> mems_router_active_routes (mems_switches s) (router s) 18"
  shows "length ks \<le> MEMS_ROUTER_MAX_ACTIVE_ROUTES \<and> distinct (map input_name ks) \<and>
         sum_list (map key_width ks) \<le> 110"
  using assms active_keys_bounds [of "mems_switches s"]
  by (simp add: tib_inv_def switches_inv_def MEMS_ROUTER_MAX_ACTIVE_ROUTES_def)

theorem active_routes_bounded_witness:
  "length (mems_router_active_routes (mems_switches (booted [])) (router (booted [])) 18)
     \<le> MEMS_ROUTER_MAX_ACTIVE_ROUTES"
proof -
  have "bank_agrees booted_switches []" by code_simp
  then show ?thesis using active_routes_bounded [OF booted_inv] by blast
qed

text \<open>
  \<open>devices_ready\<close> answers true only when something failed: the test of \<open>setup_modbus_client\<close> takes
  its success for a failure, and the result code of the power pin is stored with the opposite meaning.
  It is true exactly when Modbus did not start, the power pin is not ready or could not be configured,
  and the DAC, the ADC and the expander are ready.
\<close>

theorem devices_ready_inverted:
  "fst (devices_ready P h) \<longleftrightarrow>
     (if gpio_dt_ready P then power_configure_rc P (h @ [Power_configure]) \<noteq> 0 else True) \<and>
     modbus_init_rc P (h @ (if gpio_dt_ready P then [Power_configure, Modbus_init] else [Modbus_init])) \<noteq> 0 \<and>
     dac_ready P \<and> adc_ready P \<and> expander_ready P"
  by (simp add: devices_ready_def setup_modbus_client_def Let_def split: prod.split)

end
