(* ===== verification/Maiman.thy ===== *)
theory Maiman
  imports Platform
begin

text \<open>
  \<open>app/src/maiman.c\<close> and \<open>.h\<close>: the Modbus driver of the Maiman laser diode controllers. A register is
  read or written with one Modbus call; the getters scale it to a C \<open>float\<close>, the setters scale back.
  \<open>Modbus_read\<close> and \<open>Modbus_write\<close> on \<open>CLIENT_IFACE\<close> belong to Zephyr: their results come from the
  \<open>platform\<close>. A read leaves some 16-bit value behind even when it fails; no caller looks at it then.
\<close>

section \<open>Registers\<close>

definition REG_TEC_TEMPERATURE_MEASURED :: u16 where [tib_defs]: "REG_TEC_TEMPERATURE_MEASURED = 0x1000"
definition REG_PCB_TEMPERATURE_MEASURED :: u16 where [tib_defs]: "REG_PCB_TEMPERATURE_MEASURED = 0x1001"
definition REG_TEC_TEMPERATURE_VALUE :: u16 where [tib_defs]: "REG_TEC_TEMPERATURE_VALUE = 0x1002"
definition REG_CURRENT_MEASURED :: u16 where [tib_defs]: "REG_CURRENT_MEASURED = 0x1003"
definition REG_CURRENT :: u16 where [tib_defs]: "REG_CURRENT = 0x1004"
definition REG_VOLTAGE_MEASURED :: u16 where [tib_defs]: "REG_VOLTAGE_MEASURED = 0x1005"
definition REG_CURRENT_MAX_LIMIT :: u16 where [tib_defs]: "REG_CURRENT_MAX_LIMIT = 0x1006"
definition REG_CURRENT_PROTECTION_THRESHOLD :: u16 where [tib_defs]: "REG_CURRENT_PROTECTION_THRESHOLD = 0x1007"
definition REG_CURRENT_SET_CALIBRATION :: u16 where [tib_defs]: "REG_CURRENT_SET_CALIBRATION = 0x1008"
definition REG_NTC_COEFFICIENT :: u16 where [tib_defs]: "REG_NTC_COEFFICIENT = 0x1009"
definition REG_TEC_CURRENT_MEASURED :: u16 where [tib_defs]: "REG_TEC_CURRENT_MEASURED = 0x100A"
definition REG_TEC_VOLTAGE :: u16 where [tib_defs]: "REG_TEC_VOLTAGE = 0x100B"
definition REG_SERIAL_NUMBER :: u16 where [tib_defs]: "REG_SERIAL_NUMBER = 0x100C"
definition REG_FREQUENCY :: u16 where [tib_defs]: "REG_FREQUENCY = 0x100D"
definition REG_DURATION :: u16 where [tib_defs]: "REG_DURATION = 0x100E"
definition REG_STATE_OF_DEVICE_COMMAND :: u16 where [tib_defs]: "REG_STATE_OF_DEVICE_COMMAND = 0x1010"

definition register_table :: "(string \<times> u16) list" where
  "register_table =
     [(''TEC_TEMPERATURE_MEASURED'', REG_TEC_TEMPERATURE_MEASURED),
      (''PCB_TEMPERATURE_MEASURED'', REG_PCB_TEMPERATURE_MEASURED),
      (''TEC_TEMPERATURE_VALUE'', REG_TEC_TEMPERATURE_VALUE),
      (''CURRENT_MEASURED'', REG_CURRENT_MEASURED),
      (''CURRENT'', REG_CURRENT),
      (''VOLTAGE_MEASURED'', REG_VOLTAGE_MEASURED),
      (''CURRENT_MAX_LIMIT'', REG_CURRENT_MAX_LIMIT),
      (''CURRENT_PROTECTION_THRESHOLD'', REG_CURRENT_PROTECTION_THRESHOLD),
      (''CURRENT_SET_CALIBRATION'', REG_CURRENT_SET_CALIBRATION),
      (''NTC_COEFFICIENT'', REG_NTC_COEFFICIENT),
      (''TEC_CURRENT_MEASURED'', REG_TEC_CURRENT_MEASURED),
      (''TEC_VOLTAGE'', REG_TEC_VOLTAGE),
      (''SERIAL_NUMBER'', REG_SERIAL_NUMBER),
      (''FREQUENCY'', REG_FREQUENCY),
      (''DURATION'', REG_DURATION),
      (''STATE_OF_DEVICE_COMMAND'', REG_STATE_OF_DEVICE_COMMAND)]"

definition DIVIDER_TEMPERATURE :: fp where "DIVIDER_TEMPERATURE = f32_lit 10"
definition DIVIDER_CURRENT :: fp where "DIVIDER_CURRENT = f32_lit 100"
definition DIVIDER_VOLTAGE :: fp where "DIVIDER_VOLTAGE = f32_lit 100"
definition DIVIDER_DURATION :: fp where "DIVIDER_DURATION = f32_lit 1000"
definition DIVIDER_FREQUENCY :: fp where "DIVIDER_FREQUENCY = f32_lit 1000"
definition DIVIDER_NTC_COEFFICIENT :: fp where "DIVIDER_NTC_COEFFICIENT = f32_lit 1000"

definition OPERATION_STATE_STARTED :: u16 where [tib_defs]: "OPERATION_STATE_STARTED = 0x0001"
definition CURRENT_SET_INTERNAL :: u16 where [tib_defs]: "CURRENT_SET_INTERNAL = 0x0002"
definition ENABLE_INTERNAL :: u16 where [tib_defs]: "ENABLE_INTERNAL = 0x0004"
definition EXTERNAL_NTC_INTERLOCK_DENIED :: u16 where [tib_defs]: "EXTERNAL_NTC_INTERLOCK_DENIED = 0x0008"
definition INTERLOCK_DENIED :: u16 where [tib_defs]: "INTERLOCK_DENIED = 0x0010"
definition MODBUS_START_COMMAND_VALUE :: u16 where [tib_defs]: "MODBUS_START_COMMAND_VALUE = 0x0001"
definition MODBUS_STOP_COMMAND_VALUE :: u16 where [tib_defs]: "MODBUS_STOP_COMMAND_VALUE = 0x0000"

record maiman_driver =
  node_id :: u8

section \<open>Register lookup\<close>

function strcaseeq :: "string \<Rightarrow> string \<Rightarrow> bool" where
  "strcaseeq a b =
     (if hd0 a \<noteq> NUL \<and> hd0 b \<noteq> NUL
      then if c_tolower (hd0 a) \<noteq> c_tolower (hd0 b) then False else strcaseeq (tl a) (tl b)
      else hd0 a = hd0 b)"
  by pat_completeness auto
termination
proof (relation "measure (length \<circ> fst)")
  fix a b :: string
  assume "hd0 a \<noteq> NUL \<and> hd0 b \<noteq> NUL"
  then show "((tl a, tl b), a, b) \<in> measure (length \<circ> fst)" by (cases a) simp_all
qed simp

declare strcaseeq.simps [simp del]

fun find_register :: "(string \<times> u16) list \<Rightarrow> string \<Rightarrow> u16 option" where
  "find_register [] name = None"
| "find_register ((n, a) # rs) name = (if strcaseeq name n then Some a else find_register rs name)"

text \<open>The result and \<open>*address_out\<close>; \<open>None\<close> for the latter is a null pointer.\<close>

definition maiman_get_register_address :: "string \<Rightarrow> u16 option \<Rightarrow> bool \<times> u16 option" where
  "maiman_get_register_address name address_out =
     (case find_register register_table name of
        Some a \<Rightarrow> (True, map_option (\<lambda>_. a) address_out)
      | None \<Rightarrow> (False, address_out))"

section \<open>Transfers\<close>

definition maiman_init :: "maiman_driver \<Rightarrow> u8 \<Rightarrow> maiman_driver" where
  "maiman_init drv node = drv\<lparr>node_id := node\<rparr>"

definition maiman_read_u16 :: "platform \<Rightarrow> maiman_driver \<Rightarrow> u16 \<Rightarrow> io \<Rightarrow> bool \<times> u16 \<times> io" where
  "maiman_read_u16 P drv address h =
     (let h = h @ [Modbus_read (node_id drv) address]; (err, value) = modbus_read_rc P h
      in if err < 0 then (False, value, h) else (True, value, h))"

definition maiman_write_u16 :: "platform \<Rightarrow> maiman_driver \<Rightarrow> u16 \<Rightarrow> u16 \<Rightarrow> io \<Rightarrow> bool \<times> io" where
  "maiman_write_u16 P drv address value h =
     (let h = h @ [Modbus_write (node_id drv) address value]; err = modbus_write_rc P h
      in if err < 0 then (False, h) else (True, h))"

definition maiman_to_signed :: "u16 \<Rightarrow> int" where
  "maiman_to_signed value = sint value"

text \<open>The two shapes of a getter: a signed or an unsigned register divided as a \<open>float\<close>, or an error value.\<close>

definition get_signed :: "platform \<Rightarrow> maiman_driver \<Rightarrow> u16 \<Rightarrow> fp \<Rightarrow> fp \<Rightarrow> io \<Rightarrow> fp \<times> io" where
  "get_signed P drv address divider err h =
     (let (ok, raw, h) = maiman_read_u16 P drv address h
      in if ok then (fdiv binary32 (fp_of_int binary32 (maiman_to_signed raw)) divider, h) else (err, h))"

definition get_unsigned :: "platform \<Rightarrow> maiman_driver \<Rightarrow> u16 \<Rightarrow> fp \<Rightarrow> fp \<Rightarrow> io \<Rightarrow> fp \<times> io" where
  "get_unsigned P drv address divider err h =
     (let (ok, raw, h) = maiman_read_u16 P drv address h
      in if ok then (fdiv binary32 (fp_of_int binary32 (uint raw)) divider, h) else (err, h))"

definition ERR_TEMPERATURE :: fp where "ERR_TEMPERATURE = fneg (f32_lit (27315 / 100))"
definition ERR_VALUE :: fp where "ERR_VALUE = fneg (f32_lit 1)"

section \<open>Measurement getters\<close>

definition maiman_get_tec_temperature_measured :: "platform \<Rightarrow> maiman_driver \<Rightarrow> io \<Rightarrow> fp \<times> io" where
  "maiman_get_tec_temperature_measured P drv h =
     get_signed P drv REG_TEC_TEMPERATURE_MEASURED DIVIDER_TEMPERATURE ERR_TEMPERATURE h"

definition maiman_get_pcb_temperature_measured :: "platform \<Rightarrow> maiman_driver \<Rightarrow> io \<Rightarrow> fp \<times> io" where
  "maiman_get_pcb_temperature_measured P drv h =
     get_signed P drv REG_PCB_TEMPERATURE_MEASURED DIVIDER_TEMPERATURE ERR_TEMPERATURE h"

definition maiman_get_tec_temperature_value :: "platform \<Rightarrow> maiman_driver \<Rightarrow> io \<Rightarrow> fp \<times> io" where
  "maiman_get_tec_temperature_value P drv h =
     get_signed P drv REG_TEC_TEMPERATURE_VALUE DIVIDER_TEMPERATURE ERR_TEMPERATURE h"

definition maiman_get_current_measured :: "platform \<Rightarrow> maiman_driver \<Rightarrow> io \<Rightarrow> fp \<times> io" where
  "maiman_get_current_measured P drv h = get_unsigned P drv REG_CURRENT_MEASURED DIVIDER_CURRENT ERR_VALUE h"

definition maiman_get_frequency :: "platform \<Rightarrow> maiman_driver \<Rightarrow> io \<Rightarrow> fp \<times> io" where
  "maiman_get_frequency P drv h = get_unsigned P drv REG_FREQUENCY DIVIDER_FREQUENCY ERR_VALUE h"

definition maiman_get_duration :: "platform \<Rightarrow> maiman_driver \<Rightarrow> io \<Rightarrow> fp \<times> io" where
  "maiman_get_duration P drv h = get_unsigned P drv REG_DURATION DIVIDER_DURATION ERR_VALUE h"

text \<open>The result, \<open>*value\<close> and the history.\<close>

definition maiman_get_current :: "platform \<Rightarrow> maiman_driver \<Rightarrow> fp \<Rightarrow> io \<Rightarrow> bool \<times> fp \<times> io" where
  "maiman_get_current P drv value h =
     (let (ok, raw, h) = maiman_read_u16 P drv REG_CURRENT h
      in if ok then (True, fdiv binary32 (fp_of_int binary32 (uint raw)) DIVIDER_CURRENT, h)
         else (False, value, h))"

definition maiman_get_voltage_measured :: "platform \<Rightarrow> maiman_driver \<Rightarrow> io \<Rightarrow> fp \<times> io" where
  "maiman_get_voltage_measured P drv h = get_unsigned P drv REG_VOLTAGE_MEASURED DIVIDER_VOLTAGE ERR_VALUE h"

definition maiman_get_current_max_limit :: "platform \<Rightarrow> maiman_driver \<Rightarrow> io \<Rightarrow> fp \<times> io" where
  "maiman_get_current_max_limit P drv h = get_unsigned P drv REG_CURRENT_MAX_LIMIT DIVIDER_CURRENT ERR_VALUE h"

definition maiman_get_current_protection_threshold :: "platform \<Rightarrow> maiman_driver \<Rightarrow> io \<Rightarrow> fp \<times> io" where
  "maiman_get_current_protection_threshold P drv h =
     get_unsigned P drv REG_CURRENT_PROTECTION_THRESHOLD DIVIDER_CURRENT ERR_VALUE h"

definition maiman_get_current_set_calibration :: "platform \<Rightarrow> maiman_driver \<Rightarrow> io \<Rightarrow> fp \<times> io" where
  "maiman_get_current_set_calibration P drv h =
     get_unsigned P drv REG_CURRENT_SET_CALIBRATION DIVIDER_CURRENT ERR_VALUE h"

definition maiman_get_ntc_b25_100_coefficient :: "platform \<Rightarrow> maiman_driver \<Rightarrow> io \<Rightarrow> fp \<times> io" where
  "maiman_get_ntc_b25_100_coefficient P drv h =
     get_unsigned P drv REG_NTC_COEFFICIENT DIVIDER_NTC_COEFFICIENT ERR_VALUE h"

definition maiman_get_tec_current_measured :: "platform \<Rightarrow> maiman_driver \<Rightarrow> io \<Rightarrow> fp \<times> io" where
  "maiman_get_tec_current_measured P drv h =
     get_unsigned P drv REG_TEC_CURRENT_MEASURED DIVIDER_CURRENT ERR_VALUE h"

definition maiman_get_tec_voltage :: "platform \<Rightarrow> maiman_driver \<Rightarrow> io \<Rightarrow> fp \<times> io" where
  "maiman_get_tec_voltage P drv h = get_unsigned P drv REG_TEC_VOLTAGE DIVIDER_VOLTAGE ERR_VALUE h"

section \<open>Status and control\<close>

definition maiman_get_serial_number :: "platform \<Rightarrow> maiman_driver \<Rightarrow> io \<Rightarrow> u16 \<times> io" where
  "maiman_get_serial_number P drv h =
     (let (ok, raw, h) = maiman_read_u16 P drv REG_SERIAL_NUMBER h in if ok then (raw, h) else (0, h))"

definition maiman_get_raw_status :: "platform \<Rightarrow> maiman_driver \<Rightarrow> io \<Rightarrow> u16 \<times> io" where
  "maiman_get_raw_status P drv h =
     (let (ok, raw, h) = maiman_read_u16 P drv REG_STATE_OF_DEVICE_COMMAND h in if ok then (raw, h) else (0, h))"

definition maiman_is_bit_set :: "platform \<Rightarrow> maiman_driver \<Rightarrow> u16 \<Rightarrow> io \<Rightarrow> bool \<times> io" where
  "maiman_is_bit_set P drv bitmask h =
     (let (st, h) = maiman_get_raw_status P drv h in (st AND bitmask \<noteq> 0, h))"

definition maiman_is_operation_started :: "platform \<Rightarrow> maiman_driver \<Rightarrow> io \<Rightarrow> bool \<times> io" where
  "maiman_is_operation_started P drv h = maiman_is_bit_set P drv OPERATION_STATE_STARTED h"

definition maiman_is_current_set_internal :: "platform \<Rightarrow> maiman_driver \<Rightarrow> io \<Rightarrow> bool \<times> io" where
  "maiman_is_current_set_internal P drv h = maiman_is_bit_set P drv CURRENT_SET_INTERNAL h"

definition maiman_is_enable_internal :: "platform \<Rightarrow> maiman_driver \<Rightarrow> io \<Rightarrow> bool \<times> io" where
  "maiman_is_enable_internal P drv h = maiman_is_bit_set P drv ENABLE_INTERNAL h"

definition maiman_is_external_ntc_denied :: "platform \<Rightarrow> maiman_driver \<Rightarrow> io \<Rightarrow> bool \<times> io" where
  "maiman_is_external_ntc_denied P drv h = maiman_is_bit_set P drv EXTERNAL_NTC_INTERLOCK_DENIED h"

definition maiman_is_interlock_denied :: "platform \<Rightarrow> maiman_driver \<Rightarrow> io \<Rightarrow> bool \<times> io" where
  "maiman_is_interlock_denied P drv h = maiman_is_bit_set P drv INTERLOCK_DENIED h"

text \<open>A setpoint outside the range of \<open>uint16_t\<close> is undefined behaviour, \<open>None\<close>.\<close>

definition set_scaled :: "platform \<Rightarrow> maiman_driver \<Rightarrow> u16 \<Rightarrow> fp \<Rightarrow> fp \<Rightarrow> io \<Rightarrow> (bool \<times> io) option" where
  "set_scaled P drv address divider x h =
     map_option (\<lambda>value. maiman_write_u16 P drv address (of_nat value) h)
       (fp_to_uint 16 (fmul binary32 x divider))"

definition maiman_set_current :: "platform \<Rightarrow> maiman_driver \<Rightarrow> fp \<Rightarrow> io \<Rightarrow> (bool \<times> io) option" where
  "maiman_set_current P drv current h = set_scaled P drv REG_CURRENT DIVIDER_CURRENT current h"

definition maiman_set_frequency :: "platform \<Rightarrow> maiman_driver \<Rightarrow> fp \<Rightarrow> io \<Rightarrow> (bool \<times> io) option" where
  "maiman_set_frequency P drv frequency h = set_scaled P drv REG_FREQUENCY DIVIDER_FREQUENCY frequency h"

definition maiman_set_duration :: "platform \<Rightarrow> maiman_driver \<Rightarrow> fp \<Rightarrow> io \<Rightarrow> (bool \<times> io) option" where
  "maiman_set_duration P drv duration h = set_scaled P drv REG_DURATION DIVIDER_DURATION duration h"

definition maiman_start_device :: "platform \<Rightarrow> maiman_driver \<Rightarrow> io \<Rightarrow> bool \<times> io" where
  "maiman_start_device P drv h =
     maiman_write_u16 P drv REG_STATE_OF_DEVICE_COMMAND MODBUS_START_COMMAND_VALUE h"

definition maiman_stop_device :: "platform \<Rightarrow> maiman_driver \<Rightarrow> io \<Rightarrow> bool \<times> io" where
  "maiman_stop_device P drv h =
     maiman_write_u16 P drv REG_STATE_OF_DEVICE_COMMAND MODBUS_STOP_COMMAND_VALUE h"

section \<open>The lookup\<close>

lemma strcaseeq_iff: "strcaseeq a b \<longleftrightarrow> map c_tolower (cstr a) = map c_tolower (cstr b)"
proof (induction a b rule: strcaseeq.induct)
  case (1 a b)
  show ?case
  proof (cases "hd0 a = NUL \<or> hd0 b = NUL")
    case True
    then show ?thesis
      by (auto simp: strcaseeq.simps [of a b] hd0_tl_cstr [of a] hd0_tl_cstr [of b])
  next
    case False
    with 1 show ?thesis
      by (auto simp: strcaseeq.simps [of a b] hd0_tl_cstr [of a] hd0_tl_cstr [of b])
  qed
qed

lemma register_names:
  "distinct (map (\<lambda>(n, a). map c_tolower (cstr n)) register_table)"
  "distinct (map snd register_table)"
  by code_simp+

lemma find_register_iff:
  assumes "distinct (map (\<lambda>(n, a). map c_tolower (cstr n)) rs)"
  shows "find_register rs name = Some a \<longleftrightarrow>
     (\<exists>n. (n, a) \<in> set rs \<and> map c_tolower (cstr name) = map c_tolower (cstr n))"
  using assms by (induction rs) (force simp: strcaseeq_iff)+

text \<open>
  A register is found exactly when its name is in the table, whatever the case of the letters, and
  the address is then the one of that entry; different entries have different names and addresses, so
  the order of the search does not matter. When it is not found the caller's address is untouched.
\<close>

theorem register_address_spec:
  "(maiman_get_register_address name (Some old) = (True, Some a) \<longleftrightarrow>
      (\<exists>n. (n, a) \<in> set register_table \<and> map c_tolower (cstr name) = map c_tolower (cstr n))) \<and>
   (maiman_get_register_address name (Some old) = (False, Some old) \<longleftrightarrow>
      \<not> (\<exists>n a. (n, a) \<in> set register_table \<and> map c_tolower (cstr name) = map c_tolower (cstr n))) \<and>
   fst (maiman_get_register_address name None) = fst (maiman_get_register_address name (Some old)) \<and>
   distinct (map (\<lambda>(n, a). map c_tolower (cstr n)) register_table) \<and> distinct (map snd register_table)"
proof -
  have f: "find_register register_table name = Some a \<longleftrightarrow>
      (\<exists>n. (n, a) \<in> set register_table \<and> map c_tolower (cstr name) = map c_tolower (cstr n))" for a
    by (rule find_register_iff [OF register_names(1)])
  then have g: "find_register register_table name = None \<longleftrightarrow>
      \<not> (\<exists>n a. (n, a) \<in> set register_table \<and> map c_tolower (cstr name) = map c_tolower (cstr n))"
    by (metis not_Some_eq)
  show ?thesis
    unfolding f [symmetric] g [symmetric]
    by (auto simp: maiman_get_register_address_def register_names split: option.split)
qed

section \<open>Scaling there and back\<close>

lemma round_mag_error:
  assumes "0 < q" and "2 powi (ulp_min F + prec F - 1) \<le> q"
  shows "\<bar>round_mag F q - q\<bar> \<le> q * 2 powi (- prec F)"
proof -
  have "ulp_min F + prec F - 1 < ilog2 q + 1"
    using le_less_trans [OF assms(2) ilog2_bounds [OF assms(1), THEN conjunct2]] by (simp add: powi_strict)
  then have u: "ulp F q = 2 powi (ilog2 q) * 2 powi (1 - prec F)"
    using power_int_add [of "2::rat" "ilog2 q" "1 - prec F"] by (simp add: ulp_def algebra_simps)
  have "2 powi (1 - prec F) = 2 * (2::rat) powi (- prec F)"
    using power_int_add [of "2::rat" 1 "- prec F"] by simp
  with u have u2: "ulp F q / 2 \<le> q * 2 powi (- prec F)"
    using ilog2_bounds [OF assms(1)] by (simp add: mult_right_mono)
  have "round_mag F q - q = (of_int (round_even (q / ulp F q)) - q / ulp F q) * ulp F q"
    by (simp add: round_mag_def left_diff_distrib)
  then have "\<bar>round_mag F q - q\<bar> = \<bar>of_int (round_even (q / ulp F q)) - q / ulp F q\<bar> * ulp F q"
    using ulp_pos [of F q] by (simp add: abs_mult abs_of_pos)
  also have "\<dots> \<le> 1 / 2 * ulp F q"
    by (intro mult_right_mono round_even_dist) (auto intro: less_imp_le)
  finally show ?thesis using u2 by simp
qed

lemma powi_small: "(2::rat) powi (- 24) = 1 / 16777216" "(2::rat) powi (- 126) \<le> 1 / 1048576"
    "1048576 \<le> (2::rat) powi 128"
proof -
  show "(2::rat) powi (- 24) = 1 / 16777216" by (simp add: power_int_minus power_int_def power_divide)
  have "(2::rat) powi (-126) \<le> 2 powi (-20)" by (rule powi_mono) simp
  also have "(2::rat) powi (-20) = 1 / 1048576" by (simp add: power_int_minus power_int_def power_divide)
  finally show "(2::rat) powi (- 126) \<le> 1 / 1048576" .
  have "(1048576::rat) = 2 powi 20" by (simp add: power_int_def)
  also have "\<dots> \<le> 2 powi 128" by (rule powi_mono) simp
  finally show "1048576 \<le> (2::rat) powi 128" .
qed

lemma fround32_error:
  assumes "1 / 1048576 \<le> q" and "q \<le> 131072"
  obtains r where "fround binary32 s q = Num r" and "\<bar>r - q\<bar> \<le> q / 16777216"
proof -
  have q: "0 < q" using assms(1) by linarith
  have f: "prec binary32 = 24" "ulp_min binary32 = - 149" "e_top binary32 = 128" by (simp_all add: binary32_def)
  have n: "2 powi (ulp_min binary32 + prec binary32 - 1) \<le> q"
    using order_trans [OF powi_small(2) assms(1)] by (simp add: f)
  have e: "\<bar>round_mag binary32 q - q\<bar> \<le> q / 16777216"
    using round_mag_error [OF q n] by (simp add: f powi_small(1))
  then have "0 < round_mag binary32 q" "round_mag binary32 q < 1048576"
    using q assms(2) by linarith+
  then have "fround binary32 s q = Num (round_mag binary32 q)"
    using q powi_small(3) by (auto simp: fround_def Let_def f)
  with e show thesis by (rule that[rotated])
qed

lemma dividers [simp]:
  "DIVIDER_TEMPERATURE = Num 10" "DIVIDER_CURRENT = Num 100" "DIVIDER_VOLTAGE = Num 100"
  "DIVIDER_DURATION = Num 1000" "DIVIDER_FREQUENCY = Num 1000" "DIVIDER_NTC_COEFFICIENT = Num 1000"
  by code_simp+

lemma fp_of_int32:
  assumes "\<bar>i\<bar> < 65536"
  shows "fp_of_int binary32 i = Num (of_int i)"
proof (cases "i = 0")
  case True
  then show ?thesis by (simp add: fp_of_int_def signed_zero_def)
next
  case False
  have f: "prec binary32 = 24" "ulp_min binary32 = - 149" "e_top binary32 = 128" by (simp_all add: binary32_def)
  have "of_int \<bar>i\<bar> < (65536 :: rat)" using assms by linarith
  moreover have "(65536 :: rat) \<le> 2 powi 24" by (simp add: power_int_def)
  ultimately have "fits binary32 (of_int \<bar>i\<bar>)" by (intro fits_int) (auto simp: f)
  moreover have "of_int \<bar>i\<bar> < (2::rat) powi 128"
    using powi_small(3) \<open>of_int \<bar>i\<bar> < (65536 :: rat)\<close> by linarith
  ultimately have *: "is_finite (fp_of_int binary32 i) \<and> fval (fp_of_int binary32 i) = of_int i"
    unfolding fp_of_int_def by (intro fround_exact) (auto simp: f)
  with False show ?thesis by (cases "fp_of_int binary32 i") auto
qed

lemma uint16_bound: "uint (raw :: u16) < 65536" "0 \<le> uint raw"
  using uint_lt2p [of raw] by simp_all

lemma nat_pred: "0 < (k::int) \<Longrightarrow> f = k - 1 \<or> f = k \<Longrightarrow> nat f \<in> {nat k - 1, nat k}"
  by auto

lemma scale_round_trip:
  assumes d: "d \<in> {100, 1000}"
  shows "\<exists>v. fp_to_uint 16 (fmul binary32 (fdiv binary32 (fp_of_int binary32 (uint (raw :: u16))) (Num d)) (Num d)) = Some v \<and>
             v \<in> {unat raw - 1, unat raw}"
proof (cases "raw = 0")
  case True
  then show ?thesis
    using d by (auto simp: fp_of_int_def signed_zero_def fdiv_def fmul_def fp_to_uint_def trunc_rat_def)
next
  case False
  let ?n = "of_int (uint raw) :: rat"
  have "0 < uint raw" using False by (simp add: word_neq_0_conv uint_0_iff order_le_neq_trans)
  then have n: "1 \<le> ?n" "?n < 65536" using uint16_bound [of raw] by (linarith, linarith)
  have x: "fdiv binary32 (fp_of_int binary32 (uint raw)) (Num d) = fround binary32 False (?n / d)"
    using d n by (auto simp: fp_of_int32 uint16_bound fdiv_def)
  have "1 / 1048576 \<le> ?n / d" "?n / d \<le> 131072" using d n by auto
  then obtain r where r: "fround binary32 False (?n / d) = Num r" "\<bar>r - ?n / d\<bar> \<le> ?n / d / 16777216"
    by (rule fround32_error)
  have rd: "\<bar>r * d - ?n\<bar> \<le> ?n / 16777216"
    using r(2) d by (elim insertE emptyE; hypsubst; linarith)
  have r0: "0 < r" using r(2) n d by (auto simp: abs_le_iff field_simps)
  have y: "fmul binary32 (Num r) (Num d) = fround binary32 False (r * d)"
    using d r0 by (auto simp: fmul_def)
  have "1 / 1048576 \<le> r * d" "r * d \<le> 131072" using rd n by linarith+
  then obtain t where t: "fround binary32 False (r * d) = Num t" "\<bar>t - r * d\<bar> \<le> r * d / 16777216"
    by (rule fround32_error)
  have "?n - 1 < t" "t < ?n + 1" using t(2) rd n by linarith+
  then have "\<lfloor>t\<rfloor> = uint raw - 1 \<or> \<lfloor>t\<rfloor> = uint raw" by linarith
  moreover have t0: "0 \<le> t" using \<open>?n - 1 < t\<close> n by linarith
  ultimately have v: "nat \<lfloor>t\<rfloor> \<in> {unat raw - 1, unat raw}"
    using nat_pred [OF \<open>0 < uint raw\<close>, of "\<lfloor>t\<rfloor>"] by simp
  have "0 \<le> \<lfloor>t\<rfloor>" "\<lfloor>t\<rfloor> < 65536"
    using t0 \<open>\<lfloor>t\<rfloor> = uint raw - 1 \<or> \<lfloor>t\<rfloor> = uint raw\<close> uint16_bound [of raw] by linarith+
  then have "fp_to_uint 16 (Num t) = Some (nat \<lfloor>t\<rfloor>)"
    using t0 by (simp add: fp_to_uint_def trunc_rat_def)
  with v show ?thesis unfolding x r(1) y t(1) by blast
qed


text \<open>
  The round trip does lose: the conversion truncates, so a current register of 53 reads as 0.53 and
  is written back as 52, and a frequency register of 251 is written back as 250.
\<close>

theorem setpoint_loses_one:
  "maiman_set_current P drv (fdiv binary32 (fp_of_int binary32 (uint (53 :: u16))) DIVIDER_CURRENT) h =
     Some (maiman_write_u16 P drv REG_CURRENT 52 h) \<and>
   maiman_set_frequency P drv (fdiv binary32 (fp_of_int binary32 (uint (251 :: u16))) DIVIDER_FREQUENCY) h =
     Some (maiman_write_u16 P drv REG_FREQUENCY 250 h)"
proof -
  have "fp_to_uint 16 (fmul binary32 (fdiv binary32 (fp_of_int binary32 (uint (53 :: u16))) DIVIDER_CURRENT) DIVIDER_CURRENT) = Some 52"
    "fp_to_uint 16 (fmul binary32 (fdiv binary32 (fp_of_int binary32 (uint (251 :: u16))) DIVIDER_FREQUENCY) DIVIDER_FREQUENCY) = Some 250"
    by code_simp+
  then show ?thesis by (simp add: maiman_set_current_def maiman_set_frequency_def set_scaled_def)
qed

section \<open>Readings and error values\<close>

lemma read_u16_history: "snd (snd (maiman_read_u16 P drv a h)) = h @ [Modbus_read (node_id drv) a]"
  by (simp add: maiman_read_u16_def Let_def split: prod.split)

lemma err_values: "ERR_TEMPERATURE = Num (- 8950579 / 32768)" "ERR_VALUE = Num (- 1)"
  by code_simp+

lemma fround32_pos:
  assumes "1 / 1048576 \<le> q" and "q \<le> 131072"
  obtains r where "fround binary32 s q = Num r" and "\<bar>r - q\<bar> \<le> q / 16777216" and "0 < r"
proof -
  obtain r where r: "fround binary32 s q = Num r" "\<bar>r - q\<bar> \<le> q / 16777216"
    using fround32_error [OF assms] by blast
  moreover have "0 < r" using r(2) assms(1) by linarith
  ultimately show thesis by (rule that)
qed

lemma unsigned_reading:
  assumes "d \<in> {100, 1000}"
  shows "fdiv binary32 (fp_of_int binary32 (uint (raw :: u16))) (Num d) \<noteq> ERR_VALUE"
proof (cases "raw = 0")
  case True
  then show ?thesis
    using assms by (auto simp: fp_of_int_def signed_zero_def fdiv_def err_values)
next
  case False
  let ?n = "of_int (uint raw) :: rat"
  have "0 < uint raw" using False by (simp add: word_neq_0_conv uint_0_iff order_le_neq_trans)
  then have n: "1 \<le> ?n" "?n < 65536" using uint16_bound [of raw] by (linarith, linarith)
  have x: "fdiv binary32 (fp_of_int binary32 (uint raw)) (Num d) = fround binary32 False (?n / d)"
    using assms n by (auto simp: fp_of_int32 uint16_bound fdiv_def)
  have "1 / 1048576 \<le> ?n / d" "?n / d \<le> 131072" using assms n by auto
  then obtain r where r: "fround binary32 False (?n / d) = Num r" "\<bar>r - ?n / d\<bar> \<le> ?n / d / 16777216"
    "0 < r" by (rule fround32_pos)
  with r(3) show ?thesis unfolding x r(1) by (simp add: err_values)
qed

lemma signed_reading: "fdiv binary32 (fp_of_int binary32 (sint (raw :: u16))) (Num 10) \<noteq> ERR_TEMPERATURE"
proof -
  let ?s = "sint raw" let ?n = "of_int \<bar>?s\<bar> :: rat"
  have s: "\<bar>?s\<bar> < 65536" using sint_ge [of raw] sint_lt [of raw] by simp
  consider "?s = 0" | "0 < ?s" | "?s < 0" by linarith
  then show ?thesis
  proof cases
    case 1
    then show ?thesis by (simp add: fp_of_int_def signed_zero_def fdiv_def err_values)
  next
    case 2
    then have n: "1 \<le> ?n" "?n < 65536" using s by (linarith, linarith)
    have "\<not> (of_int ?s :: rat) < 0" using 2 by linarith
    then have x: "fdiv binary32 (fp_of_int binary32 ?s) (Num 10) = fround binary32 False (?n / 10)"
      using 2 s by (simp add: fp_of_int32 fdiv_def)
    have "1 / 1048576 \<le> ?n / 10" "?n / 10 \<le> 131072" using n by auto
    then obtain r where r: "fround binary32 False (?n / 10) = Num r" "\<bar>r - ?n / 10\<bar> \<le> ?n / 10 / 16777216"
    "0 < r" by (rule fround32_pos)
    with r(3) show ?thesis unfolding x r(1) by (simp add: err_values)
  next
    case 3
    then have n: "1 \<le> ?n" "?n < 65536" using s by (linarith, linarith)
    have "(of_int ?s :: rat) < 0" using 3 by linarith
    then have x: "fdiv binary32 (fp_of_int binary32 ?s) (Num 10) = fround binary32 True (- (?n / 10))"
      using 3 s by (simp add: fp_of_int32 fdiv_def)
    have "1 / 1048576 \<le> ?n / 10" "?n / 10 \<le> 131072" using n by auto
    then obtain r where r: "fround binary32 True (?n / 10) = Num r" "\<bar>r - ?n / 10\<bar> \<le> ?n / 10 / 16777216"
    "0 < r" by (rule fround32_pos)
    with r have y: "fround binary32 True (- (?n / 10)) = Num (- r)"
      using r(1) n by (auto simp: fround_def Let_def signed_inf_def signed_zero_def split: if_splits)
    have "r \<noteq> 8950579 / 32768"
    proof
      assume "r = 8950579 / 32768"
      then have "\<bar>8950579 / 32768 - ?n / 10\<bar> \<le> 1 / 1000" using r(2) n by linarith
      then have "2731 < ?n" "?n < 2732" by linarith+
      then have "2731 < \<bar>?s\<bar>" "\<bar>?s\<bar> < 2732" by linarith+
      then show False by linarith
    qed
    then show ?thesis unfolding x y by (simp add: err_values)
  qed
qed

text \<open>
  C36: the error values of the getters cannot be mistaken for readings: no register value scales to
  \<open>-273.15f\<close> degrees, none scales to \<open>-1.0f\<close>, so a caller sees the error value exactly when the
  transfer failed. Every getter performs one transfer, of its own register on its own node.
\<close>

theorem getter_errors_distinguishable:
  "list_all (\<lambda>(get, reg, err).
       (fst (get P drv h) = err \<longleftrightarrow> \<not> fst (maiman_read_u16 P drv reg h)) \<and>
       snd (get P drv h) = h @ [Modbus_read (node_id drv) reg])
     [(maiman_get_tec_temperature_measured, 0x1000, ERR_TEMPERATURE),
      (maiman_get_pcb_temperature_measured, 0x1001, ERR_TEMPERATURE),
      (maiman_get_tec_temperature_value, 0x1002, ERR_TEMPERATURE),
      (maiman_get_current_measured, 0x1003, ERR_VALUE),
      (maiman_get_voltage_measured, 0x1005, ERR_VALUE),
      (maiman_get_current_max_limit, 0x1006, ERR_VALUE),
      (maiman_get_current_protection_threshold, 0x1007, ERR_VALUE),
      (maiman_get_current_set_calibration, 0x1008, ERR_VALUE),
      (maiman_get_ntc_b25_100_coefficient, 0x1009, ERR_VALUE),
      (maiman_get_tec_current_measured, 0x100A, ERR_VALUE),
      (maiman_get_tec_voltage, 0x100B, ERR_VALUE),
      (maiman_get_frequency, 0x100D, ERR_VALUE),
      (maiman_get_duration, 0x100E, ERR_VALUE)]"
proof -
  have s: "(fst (get_signed P drv reg (Num 10) ERR_TEMPERATURE h) = ERR_TEMPERATURE) = (\<not> fst (maiman_read_u16 P drv reg h)) \<and>
      snd (get_signed P drv reg (Num 10) ERR_TEMPERATURE h) = h @ [Modbus_read (node_id drv) reg]" for reg
    using read_u16_history [of P drv reg h] signed_reading
    by (simp add: get_signed_def Let_def maiman_to_signed_def case_prod_unfold)
  have u: "(fst (get_unsigned P drv reg (Num d) ERR_VALUE h) = ERR_VALUE) = (\<not> fst (maiman_read_u16 P drv reg h)) \<and>
      snd (get_unsigned P drv reg (Num d) ERR_VALUE h) = h @ [Modbus_read (node_id drv) reg]"
    if "d \<in> {100, 1000}" for reg d
    using read_u16_history [of P drv reg h] unsigned_reading [OF that]
    by (simp add: get_unsigned_def Let_def case_prod_unfold)
  show ?thesis
    by (simp add: s u tib_defs maiman_get_tec_temperature_measured_def maiman_get_pcb_temperature_measured_def
        maiman_get_tec_temperature_value_def maiman_get_current_measured_def maiman_get_voltage_measured_def
        maiman_get_current_max_limit_def maiman_get_current_protection_threshold_def
        maiman_get_current_set_calibration_def maiman_get_ntc_b25_100_coefficient_def
        maiman_get_tec_current_measured_def maiman_get_tec_voltage_def maiman_get_frequency_def
        maiman_get_duration_def)
qed

text \<open>
  Each status predicate is one bit of the status register, read with one transfer; when the transfer
  fails all of them answer false, so an interlock that cannot be read is reported as not denied.
\<close>

theorem status_flags_spec:
  "list_all (\<lambda>(flag, k).
       (fst (flag P drv h) \<longleftrightarrow>
          fst (maiman_read_u16 P drv REG_STATE_OF_DEVICE_COMMAND h) \<and>
          bit (fst (snd (maiman_read_u16 P drv REG_STATE_OF_DEVICE_COMMAND h))) k) \<and>
       snd (flag P drv h) = h @ [Modbus_read (node_id drv) REG_STATE_OF_DEVICE_COMMAND])
     [(maiman_is_operation_started, 0), (maiman_is_current_set_internal, 1), (maiman_is_enable_internal, 2),
      (maiman_is_external_ntc_denied, 3), (maiman_is_interlock_denied, 4)]"
proof -
  have flag: "(fst (maiman_is_bit_set P drv (2 ^ k) h) =
         (fst (maiman_read_u16 P drv REG_STATE_OF_DEVICE_COMMAND h) \<and>
          bit (fst (snd (maiman_read_u16 P drv REG_STATE_OF_DEVICE_COMMAND h))) k)) \<and>
       snd (maiman_is_bit_set P drv (2 ^ k) h) = h @ [Modbus_read (node_id drv) REG_STATE_OF_DEVICE_COMMAND]" for k
    using read_u16_history [of P drv REG_STATE_OF_DEVICE_COMMAND h]
    by (simp add: maiman_is_bit_set_def maiman_get_raw_status_def Let_def case_prod_unfold and_exp_eq_0_iff_not_bit)
  show ?thesis
    using flag [of 0] flag [of 1] flag [of 2] flag [of 3] flag [of 4]
    by (simp add: maiman_is_operation_started_def maiman_is_current_set_internal_def
        maiman_is_enable_internal_def maiman_is_external_ntc_denied_def maiman_is_interlock_denied_def
        OPERATION_STATE_STARTED_def CURRENT_SET_INTERNAL_def ENABLE_INTERNAL_def
        EXTERNAL_NTC_INTERLOCK_DENIED_def INTERLOCK_DENIED_def)
qed

end
