(* ===== verification/Json_Utils.thy ===== *)
theory Json_Utils
  imports Platform "HOL-Library.Sublist"
begin

text \<open>
  \<open>lib/coo_commons/json_utils.c\<close> and \<open>.h\<close>: splitting a key at its slashes, the hand-written command
  parser, and the message type of a payload. \<open>json_obj_parse\<close> and \<open>json_obj_encode_buf\<close> belong to
  Zephyr and are parameters: for the one-field descriptor of the message type, the parser is a
  function from the bytes handed to it to its result code, the bytes it leaves in their place (it
  parses destructively) and the bytes it leaves in the field.
\<close>

abbreviation slash :: char where "slash \<equiv> CHR 0x2F"
abbreviation dquote :: char where "dquote \<equiv> CHR 0x22"

section \<open>Data\<close>

datatype coo_msg_type = COO_MSG_GET | COO_MSG_SET | COO_MSG_RESP_OK | COO_MSG_RESP_ERROR

record coo_telemetry_msg =
  timestamp :: "64 word"
  device_id :: string
  temperature :: fp
  status :: "32 word"

text \<open>The standard replies of the library's header.\<close>

definition COO_JSON_ERR_UNKNOWN :: string where
  "COO_JSON_ERR_UNKNOWN = ''{'' @ [dquote] @ ''error'' @ [dquote] @ '':'' @ [dquote] @ ''Unknown request'' @ [dquote] @ ''}''"

definition COO_JSON_ERR_UNSUPPORTED :: string where
  "COO_JSON_ERR_UNSUPPORTED = ''{'' @ [dquote] @ ''error'' @ [dquote] @ '':'' @ [dquote] @ ''Unsupported operation'' @ [dquote] @ ''}''"

definition COO_JSON_ERR_BUSY :: string where
  "COO_JSON_ERR_BUSY = ''{'' @ [dquote] @ ''error'' @ [dquote] @ '':'' @ [dquote] @ ''Busy'' @ [dquote] @ ''}''"

definition COO_JSON_ERR_INVALID :: string where
  "COO_JSON_ERR_INVALID =
     ''{'' @ [dquote] @ ''error'' @ [dquote] @ '':'' @ [dquote] @ ''Invalid or unrecognized command'' @ [dquote] @ ''}''"

definition COO_JSON_OK :: string where
  "COO_JSON_OK = ''{'' @ [dquote] @ ''status'' @ [dquote] @ '':'' @ [dquote] @ ''OK'' @ [dquote] @ ''}''"

section \<open>\<open>strstr\<close> and \<open>strtof\<close>\<close>

fun find_sub :: "string \<Rightarrow> string \<Rightarrow> nat option" where
  "find_sub needle [] = (if needle = [] then Some 0 else None)"
| "find_sub needle (c # s) =
     (if prefix needle (c # s) then Some 0 else map_option Suc (find_sub needle s))"

definition c_strstr :: "string \<Rightarrow> string \<Rightarrow> nat option" where
  "c_strstr s needle = find_sub (cstr needle) (cstr s)"

text \<open>
  \<open>strtof\<close> in the C locale: white space, a sign, then \<open>infinity\<close>, \<open>inf\<close>, \<open>nan\<close>, a hexadecimal or a
  decimal number, the longest prefix that reads as one, rounded once to nearest; 0 when none does.
\<close>

definition is_space :: "char \<Rightarrow> bool" where
  "is_space c \<longleftrightarrow> char_code c = 32 \<or> (9 \<le> char_code c \<and> char_code c \<le> 13)"

definition digit_value :: "char \<Rightarrow> int" where
  "digit_value c =
     (let d = char_code (c_tolower c)
      in if 48 \<le> d \<and> d \<le> 57 then d - 48 else if 97 \<le> d \<and> d \<le> 102 then d - 87 else 99)"

definition digits_value :: "int \<Rightarrow> string \<Rightarrow> int" where
  "digits_value base ds = foldl (\<lambda>n c. base * n + digit_value c) 0 ds"

definition read_sign :: "string \<Rightarrow> bool \<times> string" where
  "read_sign s = (if hd0 s = CHR ''-'' then (True, tl s) else if hd0 s = CHR ''+'' then (False, tl s) else (False, s))"

definition span_digits :: "int \<Rightarrow> string \<Rightarrow> string \<times> string" where
  "span_digits base s = (takeWhile (\<lambda>c. digit_value c < base) s, dropWhile (\<lambda>c. digit_value c < base) s)"

text \<open>An exponent counts only when at least one digit follows its letter and sign.\<close>

definition read_exponent :: "char \<Rightarrow> string \<Rightarrow> int" where
  "read_exponent letter s =
     (if c_tolower (hd0 s) \<noteq> letter then 0
      else let (neg, t) = read_sign (tl s); ds = fst (span_digits 10 t)
           in if neg then - digits_value 10 ds else digits_value 10 ds)"

definition read_number :: "int \<Rightarrow> char \<Rightarrow> int \<Rightarrow> int \<Rightarrow> string \<Rightarrow> rat option" where
  "read_number base letter ebase per_digit s =
     (let (whole, s) = span_digits base s;
          (frac, s) = (if hd0 s = CHR ''.'' then span_digits base (tl s) else ([], s))
      in if whole @ frac = [] then None
         else Some (of_int (digits_value base (whole @ frac)) *
                    of_int ebase powi (read_exponent letter s - per_digit * int (length frac))))"

definition starts_with_nocase :: "string \<Rightarrow> string \<Rightarrow> bool" where
  "starts_with_nocase s w \<longleftrightarrow> prefix w (map c_tolower s)"

definition c_strtof :: "string \<Rightarrow> fp" where
  "c_strtof s =
     (let (neg, t) = read_sign (dropWhile is_space (cstr s));
          hex = (if starts_with_nocase t ''0x'' then read_number 16 CHR ''p'' 2 4 (drop 2 t) else None);
          sgn = (\<lambda>x. if neg then fneg x else x)
      in if starts_with_nocase t ''inf'' then sgn PInf
         else if starts_with_nocase t ''nan'' then NaN
         else case hex of
                Some q \<Rightarrow> sgn (fround binary32 False q)
              | None \<Rightarrow>
                  (case read_number 10 CHR ''e'' 10 1 t of
                     Some q \<Rightarrow> sgn (fround binary32 False q)
                   | None \<Rightarrow> Num 0))"

section \<open>Operations\<close>

text \<open>The first argument is \<open>json_obj_encode_buf\<close> with the telemetry descriptor: result code and buffer.\<close>

definition coo_json_encode_telemetry ::
  "(coo_telemetry_msg \<Rightarrow> string \<Rightarrow> nat \<Rightarrow> int \<times> string) \<Rightarrow> coo_telemetry_msg \<Rightarrow> string \<Rightarrow> nat
     \<Rightarrow> int \<times> string" where
  "coo_json_encode_telemetry encode_buf msg buf buf_size =
     (let (ret, buf) = encode_buf msg buf buf_size in if ret < 0 then (ret, buf) else (ret, buf))"

text \<open>Result code, \<open>cmd_out\<close> and \<open>*value_out\<close>; \<open>None\<close> for \<open>value_out\<close> is a null pointer.\<close>

definition coo_json_parse_command ::
  "string \<Rightarrow> string \<Rightarrow> nat \<Rightarrow> fp option \<Rightarrow> int \<times> string \<times> fp option" where
  "coo_json_parse_command json_str cmd_out cmd_size value_out =
     (case c_strstr json_str (dquote # ''cmd'' @ [dquote] @ '':'' @ [dquote]) of
        None \<Rightarrow> (- EINVAL, cmd_out, value_out)
      | Some i \<Rightarrow>
          (let cmd_start = drop (i + 7) (cstr json_str)
           in case c_strchr cmd_start dquote of
                None \<Rightarrow> (- EINVAL, cmd_out, value_out)
              | Some cmd_len \<Rightarrow>
                  (if cmd_len \<ge> cmd_size then (- ENOMEM, cmd_out, value_out)
                   else let cmd_out = mem_write cmd_out (take cmd_len cmd_start @ [NUL])
                        in case value_out of
                             None \<Rightarrow> (0, cmd_out, None)
                           | Some _ \<Rightarrow>
                               (case c_strstr json_str (dquote # ''value'' @ [dquote] @ '':'') of
                                  Some j \<Rightarrow> (0, cmd_out, Some (c_strtof (drop (j + 8) (cstr json_str))))
                                | None \<Rightarrow> (0, cmd_out, Some (Num 0))))))"

text \<open>\<open>None\<close>: the function returns false. The second component is the payload after the parse.\<close>

definition coo_json_parse_msg_type ::
  "(string \<Rightarrow> int \<times> string \<times> string) \<Rightarrow> string \<Rightarrow> coo_msg_type option \<times> string" where
  "coo_json_parse_msg_type json_obj_parse payload =
     (let (rc, rest, msg_type) = json_obj_parse (cstr payload);
          payload = mem_write payload rest
      in if rc < 0 then (None, payload)
         else if c_strncasecmp msg_type ''get'' 4 = 0 then (Some COO_MSG_GET, payload)
         else if c_strncasecmp msg_type ''set'' 4 = 0 then (Some COO_MSG_SET, payload)
         else (None, payload))"

definition coo_json_parse_key_pair ::
  "string \<Rightarrow> string \<Rightarrow> nat \<Rightarrow> string \<Rightarrow> nat \<Rightarrow> int \<times> string \<times> string" where
  "coo_json_parse_key_pair key out_name max_name out_setting max_setting =
     (case c_strchr key slash of
        None \<Rightarrow> (-1, out_name, out_setting)
      | Some name_len \<Rightarrow>
          (if name_len = 0 \<or> name_len \<ge> max_name then (-2, out_name, out_setting)
           else let out_name = mem_write out_name (take name_len key @ [NUL]);
                    setting_start = drop (name_len + 1) key;
                    setting_len = c_strcspn1 setting_start slash
                in if setting_len = 0 \<or> setting_len \<ge> max_setting then (-3, out_name, out_setting)
                   else (0, out_name, mem_write out_setting (take setting_len setting_start @ [NUL]))))"

section \<open>Splitting a key\<close>

lemma slash_neq_NUL [simp]: "slash \<noteq> NUL" "dquote \<noteq> NUL"
  by (simp_all add: NUL_def)

lemma take_drop_cstr:
  "take n (cstr s) = take n s" "cstr (drop n s) = drop n (cstr s)" if "n \<le> length (cstr s)"
proof -
  show "take n (cstr s) = take n s"
    using that by (metis cstr_def takeWhile_eq_take take_take min.absorb1)
  show "cstr (drop n s) = drop n (cstr s)"
    using that by (induction s arbitrary: n) (auto simp: drop_Cons' cstr_def split: if_splits nat.splits)
qed

lemma NUL_notin_take [simp]: "NUL \<notin> set (take n (cstr s))"
  by (meson NUL_notin_cstr in_set_takeD)

text \<open>
  What a key is: a name without slashes, a slash, a setting without slashes, and either nothing or
  something that starts with another slash.
\<close>

definition key_of :: "string \<Rightarrow> string \<Rightarrow> string \<Rightarrow> bool" where
  "key_of key name setting \<longleftrightarrow>
     (\<exists>rest. cstr key = name @ slash # setting @ rest \<and> slash \<notin> set name \<and> slash \<notin> set setting \<and>
             (rest = [] \<or> hd rest = slash))"

lemma key_of_strchr:
  "key_of key name setting \<Longrightarrow>
     c_strchr key slash = Some (length name) \<and> take (length name) key = name \<and>
     c_strcspn1 (drop (length name + 1) key) slash = length setting \<and>
     take (length setting) (drop (length name + 1) key) = setting"
proof -
  assume "key_of key name setting"
  then obtain rest where k: "cstr key = name @ slash # setting @ rest" "slash \<notin> set name"
    "slash \<notin> set setting" "rest = [] \<or> hd rest = slash"
    by (auto simp: key_of_def)
  have 1: "c_strchr key slash = Some (length name)"
    unfolding c_strchr_Some_iff using k by blast
  have 2: "take (length name) key = name"
    using take_drop_cstr(1) [of "length name" key] k by simp
  have 3: "cstr (drop (length name + 1) key) = setting @ rest"
    using take_drop_cstr(2) [of "length name + 1" key] k by simp
  have 4: "takeWhile (\<lambda>x. x \<noteq> slash) (setting @ rest) = setting"
    using k(3,4) by (cases rest) (auto simp: takeWhile_append)
  have 5: "take (length setting) (drop (length name + 1) key) = setting"
    using take_drop_cstr(1) [of "length setting" "drop (length name + 1) key"] 3 by simp
  show ?thesis using 1 2 3 4 5 by (simp add: c_strcspn1_def)
qed

lemma key_of_exists:
  assumes "c_strchr key slash = Some n"
  shows "\<exists>setting. key_of key (take n key) setting \<and> n = length (take n key)"
proof -
  from assms obtain p t where k: "cstr key = p @ slash # t" "slash \<notin> set p" "n = length p"
    by (auto simp: c_strchr_Some_iff)
  have "take n key = p" using take_drop_cstr(1) [of n key] k by simp
  moreover have "dropWhile (\<lambda>x. x \<noteq> slash) t = [] \<or> hd (dropWhile (\<lambda>x. x \<noteq> slash) t) = slash"
    using hd_dropWhile [of "\<lambda>x. x \<noteq> slash" t] by blast
  then have "key_of key p (takeWhile (\<lambda>x. x \<noteq> slash) t)"
    using k unfolding key_of_def
    by (intro exI [of _ "dropWhile (\<lambda>x. x \<noteq> slash) t"]) (auto dest: set_takeWhileD)
  ultimately show ?thesis using k(3) by auto
qed

lemma key_of_unique: "key_of key n s \<Longrightarrow> key_of key n' s' \<Longrightarrow> n = n' \<and> s = s'"
  by (metis key_of_strchr option.inject)

lemma key_of_NUL: "key_of key n s \<Longrightarrow> NUL \<notin> set n \<and> NUL \<notin> set s"
  unfolding key_of_def by (metis NUL_notin_cstr Un_iff list.set_intros(2) set_append)

lemma no_key: "c_strchr key slash = None \<Longrightarrow> \<not> key_of key n s"
  by (auto dest: key_of_strchr)

lemma parse_key_of:
  assumes "key_of key n s"
  shows "coo_json_parse_key_pair key bn mn bs ms =
    (if n = [] \<or> mn \<le> length n then (-2, bn, bs)
     else if s = [] \<or> ms \<le> length s then (-3, mem_write bn (n @ [NUL]), bs)
     else (0, mem_write bn (n @ [NUL]), mem_write bs (s @ [NUL])))"
  using key_of_strchr [OF assms] by (simp add: coo_json_parse_key_pair_def Let_def)

lemma parse_key_pair_success:
  "(\<exists>bn' bs'. coo_json_parse_key_pair key bn mn bs ms = (0, bn', bs') \<and> cstr bn' = name \<and> cstr bs' = setting) \<longleftrightarrow>
   key_of key name setting \<and> 0 < length name \<and> length name < mn \<and> 0 < length setting \<and> length setting < ms"
proof (cases "c_strchr key slash")
  case None
  then show ?thesis by (auto simp: coo_json_parse_key_pair_def dest: no_key)
next
  case (Some n)
  then obtain nm s where k: "key_of key nm s" using key_of_exists by blast
  then have nul: "NUL \<notin> set nm" "NUL \<notin> set s" using key_of_NUL by blast+
  show ?thesis
    unfolding parse_key_of [OF k] using k nul
    by (auto simp: cstr_mem_write dest: key_of_unique)
qed

text \<open>
  C32: a key is split successfully into a name and a setting exactly when it reads
  name, slash, setting (anything after a second slash is ignored) with both parts non-empty and
  shorter than their limits.
\<close>

theorem parse_key_pair_iff:
  "(\<exists>bn' bs'. coo_json_parse_key_pair key bn mn bs ms = (0, bn', bs') \<and> cstr bn' = name \<and> cstr bs' = setting) \<longleftrightarrow>
   key_of key name setting \<and> 0 < length name \<and> length name < mn \<and> 0 < length setting \<and> length setting < ms"
  by (rule parse_key_pair_success)

text \<open>
  The splitter never writes outside its buffers: with limits no larger than the buffers, both
  buffers keep their length, and on success each holds a terminated string below its limit.
\<close>

theorem parse_key_pair_in_bounds:
  assumes "mn \<le> length bn" and "ms \<le> length bs" and "coo_json_parse_key_pair key bn mn bs ms = (rc, bn', bs')"
  shows "length bn' = length bn \<and> length bs' = length bs \<and> rc \<in> {0, -1, -2, -3} \<and>
         (rc = 0 \<longrightarrow> c_strlen bn' < mn \<and> c_strlen bs' < ms)"
proof (cases "c_strchr key slash")
  case None
  with assms show ?thesis by (auto simp: coo_json_parse_key_pair_def)
next
  case (Some n)
  then obtain nm s where k: "key_of key nm s" using key_of_exists by blast
  then have nul: "NUL \<notin> set nm" "NUL \<notin> set s" using key_of_NUL by blast+
  show ?thesis
    using assms(3) unfolding parse_key_of [OF k] using assms(1,2) nul
    by (auto simp: cstr_mem_write c_strlen_def split: if_splits)
qed

theorem parse_key_pair_in_bounds_witness:
  "\<exists>bn' bs'. coo_json_parse_key_pair ''laser1270j/CURRENT'' (replicate 16 NUL) 15 (replicate 16 NUL) 15 = (0, bn', bs') \<and>
     length bn' = 16 \<and> length bs' = 16"
proof -
  obtain rc bn' bs' where p: "coo_json_parse_key_pair ''laser1270j/CURRENT'' (replicate 16 NUL) 15 (replicate 16 NUL) 15 = (rc, bn', bs')"
    by (metis prod_cases3)
  moreover have "fst (coo_json_parse_key_pair ''laser1270j/CURRENT'' (replicate 16 NUL) 15 (replicate 16 NUL) 15) = 0"
    by code_simp
  ultimately show ?thesis using parse_key_pair_in_bounds [OF _ _ p] by simp
qed


section \<open>The command parser\<close>

lemma find_sub_skip:
  assumes "\<forall>c \<in> set p. c \<noteq> hd needle" and "needle \<noteq> []"
  shows "find_sub needle (p @ s) = map_option ((+) (length p)) (find_sub needle s)"
  using assms(1)
proof (induction p)
  case Nil
  show ?case by (simp add: option.map_ident)
next
  case (Cons c p)
  with assms(2) have "\<not> prefix needle (c # p @ s)" by (cases needle) auto
  with Cons show ?case by (simp add: option.map_comp o_def)
qed

text \<open>The message the parser's comment promises to read.\<close>

definition command_text :: "string \<Rightarrow> string \<Rightarrow> string" where
  "command_text c v =
     CHR ''{'' # dquote # ''cmd'' @ [dquote] @ '':'' @ dquote # c @ dquote # '','' @
     dquote # ''value'' @ [dquote] @ '':'' @ v @ ''}''"

lemma command_text_cstr:
  "NUL \<notin> set c \<Longrightarrow> NUL \<notin> set v \<Longrightarrow> cstr (command_text c v) = command_text c v"
  by (rule cstr_id) (auto simp: command_text_def NUL_def)

lemma command_text_cmd: "find_sub (dquote # ''cmd'' @ [dquote] @ '':'' @ [dquote]) (command_text c v) = Some 1"
  by (simp add: command_text_def)

lemma key_text_unique:
  assumes "dquote \<notin> set c" and "dquote \<notin> set p" and "b \<noteq> b'"
  shows "\<not> prefix (p @ dquote # b # q) (c @ dquote # b' # s)"
proof
  assume "prefix (p @ dquote # b # q) (c @ dquote # b' # s)"
  then obtain r where e: "c @ dquote # b' # s = p @ dquote # b # q @ r" by (auto simp: prefix_def)
  have "takeWhile (\<lambda>x. x \<noteq> dquote) (c @ dquote # b' # s) = c"
    and "takeWhile (\<lambda>x. x \<noteq> dquote) (p @ dquote # b # q @ r) = p"
    using assms(1,2) by (auto simp: takeWhile_append)
  with e assms(3) show False by auto
qed

lemma command_text_value:
  assumes "dquote \<notin> set c"
  shows "find_sub (dquote # ''value'' @ [dquote] @ '':'') (command_text c v) = Some (10 + length c)"
proof -
  have 1: "find_sub (dquote # ''value'' @ [dquote] @ '':'') (c @ dquote # CHR '','' # dquote # ''value'' @ [dquote] @ '':'' @ v @ ''}'') =
      Some (length c + 2)"
    using assms by (subst find_sub_skip) auto
  have 2: "\<not> prefix (''value'' @ dquote # CHR '':'' # []) (c @ dquote # CHR '','' # s)" for s
    by (rule key_text_unique) (use assms in auto)
  show ?thesis
    using 1 2 by (simp add: command_text_def)
qed

text \<open>
  C33: the parser reads back what its comment promises: from a command message it returns the command,
  when it fits its buffer, and the number \<open>strtof\<close> reads from the value text; when the command is too
  long it returns \<open>-ENOMEM\<close> and writes nothing.
\<close>

theorem parse_command_roundtrip:
  assumes "NUL \<notin> set c" and "dquote \<notin> set c" and "NUL \<notin> set v"
  shows "coo_json_parse_command (command_text c v) buf n (Some x) =
    (if n \<le> length c then (- ENOMEM, buf, Some x)
     else (0, mem_write buf (c @ [NUL]), Some (c_strtof (v @ ''}''))))"
proof -
  have body: "drop 8 (command_text c v) = c @ dquote # CHR '','' # dquote # ''value'' @ [dquote] @ '':'' @ v @ ''}''"
    by (simp add: command_text_def)
  have nul: "NUL \<notin> set (c @ dquote # CHR '','' # dquote # ''value'' @ [dquote] @ '':'' @ v @ ''}'')"
    using assms by (auto simp: NUL_def)
  have cmd: "c_strchr (drop 8 (command_text c v)) dquote = Some (length c)"
    unfolding body c_strchr_Some_iff cstr_id [OF nul] using assms by blast
  have val: "drop (10 + length c + 8) (command_text c v) = v @ ''}''"
  proof -
    have "drop (10 + length c + 8) (command_text c v) = drop (10 + length c) (drop 8 (command_text c v))"
      by (simp add: add.commute)
    then show ?thesis unfolding body by simp
  qed
  have lit: "cstr (dquote # ''cmd'' @ [dquote] @ '':'' @ [dquote]) = dquote # ''cmd'' @ [dquote] @ '':'' @ [dquote]"
    "cstr (dquote # ''value'' @ [dquote] @ '':'') = dquote # ''value'' @ [dquote] @ '':''"
    by (rule cstr_id; simp add: NUL_def)+
  show ?thesis
    unfolding coo_json_parse_command_def c_strstr_def lit command_text_cstr [OF assms(1,3)]
      command_text_cmd command_text_value [OF assms(2)]
    using cmd val by (simp add: Let_def body)
qed

theorem parse_command_roundtrip_witness:
  "coo_json_parse_command (command_text ''go'' ''2.5'') (replicate 8 NUL) 8 (Some NaN) =
     (0, mem_write (replicate 8 NUL) (''go'' @ [NUL]), Some (Num (5/2)))"
proof -
  have "c_strtof (''2.5'' @ ''}'') = Num (5/2)" by code_simp
  then show ?thesis
    using parse_command_roundtrip [of "''go''" "''2.5''" "replicate 8 NUL" 8 NaN] by (simp add: NUL_def)
qed

section \<open>The message type\<close>

text \<open>
  The message type is recognised exactly when the JSON library accepts the payload and leaves
  \<open>get\<close> or \<open>set\<close> in the field, in any mixture of cases and with nothing after it.
\<close>

theorem parse_msg_type_spec:
  "fst (coo_json_parse_msg_type jp payload) =
     (case jp (cstr payload) of (rc, rest, field) \<Rightarrow>
        if rc < 0 then None
        else if map c_tolower (cstr field) = ''get'' then Some COO_MSG_GET
        else if map c_tolower (cstr field) = ''set'' then Some COO_MSG_SET
        else None)"
proof -
  have four: "c_strncasecmp f w 4 = 0 \<longleftrightarrow> map c_tolower (cstr f) = w"
    if "map c_tolower (cstr w) = w" "length w = 3" for f w
  proof -
    have "cstr w = cstr (map c_tolower (cstr w))" by (simp add: that)
    have lw: "length (cstr w) = 3" using that by (metis length_map)
    then have "take 4 (cstr w) = cstr w" by simp
    then have "c_strncasecmp f w 4 = 0 \<longleftrightarrow> take 4 (map c_tolower (cstr f)) = w"
      using that by (simp add: c_strncasecmp_0_iff take_map)
    also have "\<dots> \<longleftrightarrow> map c_tolower (cstr f) = w"
      using that(2) by (cases "length (map c_tolower (cstr f)) \<le> 4") auto
    finally show ?thesis .
  qed
  have "map c_tolower (cstr ''get'') = ''get''" "map c_tolower (cstr ''set'') = ''set''" by code_simp+
  then show ?thesis
    by (simp add: coo_json_parse_msg_type_def four split: prod.split)
qed

end
