(* ===== verification/Command.thy ===== *)
theory Command
  imports Devices Maiman Json_Utils
begin

text \<open>
  \<open>app/src/command.c\<close> and \<open>.h\<close>: the requests the box answers, from the key of a topic to the handler,
  and the reply each handler builds. \<open>json_obj_parse\<close> belongs to Zephyr: for each descriptor the
  sources pass, it is a parameter from the bytes handed to it to the result code and the fields
  afterwards. Local arrays and variables start with arbitrary bytes, a parameter as well. A handler
  returns \<open>None\<close> when it runs into undefined behaviour.
\<close>

definition MAX_TOPIC_LEN :: nat where [tib_defs]: "MAX_TOPIC_LEN = 64"
definition MAX_KEY_LEN :: nat where [tib_defs]: "MAX_KEY_LEN = 48"
definition MAX_SESSION_ID_LEN :: nat where [tib_defs]: "MAX_SESSION_ID_LEN = 48"
definition MAX_PAYLOAD_LEN :: nat where [tib_defs]: "MAX_PAYLOAD_LEN = 256"
definition MAX_CORRELATION_DATA :: nat where [tib_defs]: "MAX_CORRELATION_DATA = 16"
definition MAX_PENDING_COMMANDS :: nat where [tib_defs]: "MAX_PENDING_COMMANDS = 2"

section \<open>Data\<close>

datatype MsgType = GET | SET | ACK | RESP_OK | RESP_ERROR

record Command =
  cmd_msg_type :: MsgType
  cmd_key :: string
  cmd_session_id :: string
  cmd_response_topic :: string
  cmd_payload_len :: nat
  cmd_payload :: string
  cmd_correlation_data :: "u8 list"
  cmd_corr_len :: nat

record OutMsg =
  out_msg_type :: MsgType
  out_topic :: string
  out_qos :: u8
  out_payload_len :: nat
  out_payload :: string
  out_correlation_data :: "u8 list"
  out_corr_len :: nat

text \<open>
  \<open>json_obj_parse\<close>, one function per descriptor. The message type's parser also returns the bytes it
  leaves in the text, which its caller uses again; the others parse a text nobody reads afterwards.
\<close>

record json_lib =
  json_msg_type :: "string \<Rightarrow> int \<times> string \<times> string"
  json_route_id :: "string \<Rightarrow> int \<times> string \<times> string"
  json_value_string :: "string \<Rightarrow> int \<times> string"
  json_value_uint16 :: "string \<Rightarrow> int \<times> u16"
  json_value_float :: "string \<Rightarrow> int \<times> fp"
  json_value_bool :: "string \<Rightarrow> int \<times> bool"
  json_coeffs :: "string \<Rightarrow> int \<times> (nat \<Rightarrow> fp) \<times> nat \<times> (nat \<Rightarrow> fp) \<times> nat"

record runtime =
  board :: platform
  json :: json_lib
  stack_bytes :: "string \<Rightarrow> nat \<Rightarrow> char"   \<comment> \<open>initial bytes of the local array of that name\<close>

definition uninit :: "runtime \<Rightarrow> string \<Rightarrow> nat \<Rightarrow> string" where
  "uninit R name n = map (stack_bytes R name) [0..<n]"

type_synonym handler = "runtime \<Rightarrow> Command \<Rightarrow> tib \<Rightarrow> (OutMsg \<times> tib) option"

record DispatchEntry =
  entry_key :: string
  get_handler :: "handler option"
  set_handler :: "handler option"

text \<open>Pieces of JSON text, as the string literals of the sources spell them.\<close>

definition quoted :: "string \<Rightarrow> string" where
  "quoted s = dquote # s @ [dquote]"

definition json_error :: "string \<Rightarrow> string" where
  "json_error e = ''{'' @ quoted ''error'' @ '':'' @ quoted e @ ''}''"

definition json_ok :: string where
  "json_ok = ''{'' @ quoted ''status'' @ '':'' @ quoted ''OK'' @ ''}''"

section \<open>Message type and replies\<close>

definition parse_msg_type_from_payload :: "json_lib \<Rightarrow> string \<Rightarrow> MsgType option \<times> string" where
  "parse_msg_type_from_payload J payload =
     (let (rc, rest, msg_type) = json_msg_type J (cstr payload);
          payload = mem_write payload rest
      in if rc < 0 then (None, payload)
         else if c_strncasecmp msg_type ''get'' 4 = 0 then (Some GET, payload)
         else if c_strncasecmp msg_type ''set'' 4 = 0 then (Some SET, payload)
         else (None, payload))"

definition parse_key_pair :: "string \<Rightarrow> string \<Rightarrow> nat \<Rightarrow> string \<Rightarrow> nat \<Rightarrow> int \<times> string \<times> string" where
  "parse_key_pair key out_name max_name out_setting max_setting =
     (case c_strchr key slash of
        None \<Rightarrow> (-1, out_name, out_setting)
      | Some name_len \<Rightarrow>
          (if name_len = 0 \<or> name_len \<ge> max_name then (-2, out_name, out_setting)
           else let out_name = mem_write out_name (take name_len key @ [NUL]);
                    setting_start = drop (name_len + 1) key;
                    setting_len = c_strcspn1 setting_start slash
                in if setting_len = 0 \<or> setting_len \<ge> max_setting then (-3, out_name, out_setting)
                   else (0, out_name, mem_write out_setting (take setting_len setting_start @ [NUL]))))"

definition zero_OutMsg :: OutMsg where
  "zero_OutMsg =
     \<lparr>out_msg_type = GET, out_topic = replicate MAX_TOPIC_LEN NUL, out_qos = 0, out_payload_len = 0,
      out_payload = replicate MAX_PAYLOAD_LEN NUL,
      out_correlation_data = replicate MAX_CORRELATION_DATA 0, out_corr_len = 0\<rparr>"

definition default_topic :: string where
  "default_topic = ''cmd/hsfib-tib/resp''"

definition msg_builder :: "Command option \<Rightarrow> MsgType \<Rightarrow> string \<Rightarrow> OutMsg" where
  "msg_builder cmd msgtyp msg =
     (let r = zero_OutMsg\<lparr>out_msg_type := msgtyp, out_qos := 1\<rparr>;
          r = r\<lparr>out_topic := c_strncpy (out_topic r) default_topic (MAX_TOPIC_LEN - 1)\<rparr>;
          r = (case cmd of
                 Some c \<Rightarrow>
                   (if c_strlen (cmd_response_topic c) > 0 \<and> c_strlen (cmd_response_topic c) < MAX_TOPIC_LEN
                    then r\<lparr>out_topic := c_strncpy (out_topic r) (cmd_response_topic c) (MAX_TOPIC_LEN - 1)\<rparr>
                    else r)
               | None \<Rightarrow> r);
          r = (case cmd of
                 Some c \<Rightarrow>
                   (if cmd_corr_len c > 0 \<and> cmd_corr_len c < MAX_CORRELATION_DATA
                    then r\<lparr>out_correlation_data :=
                             mem_write (out_correlation_data r) (take (cmd_corr_len c) (cmd_correlation_data c)),
                           out_corr_len := cmd_corr_len c\<rparr>
                    else r)
               | None \<Rightarrow> r)
      in r\<lparr>out_payload_len := c_strlen msg,
           out_payload := c_strncpy (out_payload r) msg (MAX_PAYLOAD_LEN - 1)\<rparr>)"

definition reply :: "Command \<Rightarrow> MsgType \<Rightarrow> string \<Rightarrow> tib \<Rightarrow> (OutMsg \<times> tib) option" where
  "reply cmd msgtyp msg s = Some (msg_builder (Some cmd) msgtyp msg, s)"

text \<open>\<open>snprintf(payload, MAX_PAYLOAD_LEN, \<dots>)\<close> into a zeroed array.\<close>

definition payload_text :: "string \<Rightarrow> string" where
  "payload_text txt = fst (c_snprintf (replicate MAX_PAYLOAD_LEN NUL) MAX_PAYLOAD_LEN txt)"

definition invalid_command_response :: "Command \<Rightarrow> OutMsg" where
  "invalid_command_response cmd =
     msg_builder (Some cmd) RESP_ERROR (json_error ''Invalid or unrecognized command'')"

definition unknown_response :: "Command \<Rightarrow> OutMsg" where
  "unknown_response cmd = msg_builder (Some cmd) RESP_ERROR (json_error ''Unknown request'')"

definition unsupported_response :: "Command \<Rightarrow> OutMsg" where
  "unsupported_response cmd = msg_builder (Some cmd) RESP_ERROR (json_error ''Unsupported operation'')"

definition busy_response :: "Command \<Rightarrow> OutMsg" where
  "busy_response cmd = msg_builder (Some cmd) RESP_ERROR (json_error ''busy'')"

section \<open>Power and laser channels\<close>

text \<open>\<open>laser_t\<close>: two of its names have the value 1.\<close>

definition LASER_1028_Y :: nat where [tib_defs]: "LASER_1028_Y = 1"
definition LASER_1270_J :: nat where [tib_defs]: "LASER_1270_J = 1"
definition LASER_1430_YJ :: nat where [tib_defs]: "LASER_1430_YJ = 2"
definition LASER_1430_HK :: nat where [tib_defs]: "LASER_1430_HK = 3"
definition LASER_1510_H :: nat where [tib_defs]: "LASER_1510_H = 4"
definition LASER_2330_K :: nat where [tib_defs]: "LASER_2330_K = 5"
definition LASER_UNKNOWN :: nat where [tib_defs]: "LASER_UNKNOWN = 6"

definition get_laser_channel :: "string \<Rightarrow> nat" where
  "get_laser_channel laser_name =
     (if c_strncasecmp laser_name ''1028y'' 7 = 0 then LASER_1028_Y
      else if c_strncasecmp laser_name ''1270j'' 7 = 0 then LASER_1270_J
      else if c_strncasecmp laser_name ''1430yj'' 7 = 0 then LASER_1430_YJ
      else if c_strncasecmp laser_name ''1430yj'' 7 = 0 then LASER_1430_HK
      else if c_strncasecmp laser_name ''1510h'' 7 = 0 then LASER_1510_H
      else if c_strncasecmp laser_name ''2330k'' 7 = 0 then LASER_2330_K
      else LASER_UNKNOWN)"

definition wait_laser_boot :: "io \<Rightarrow> io" where
  "wait_laser_boot h = h @ [K_sleep 1000]"

definition power_enabled :: "platform \<Rightarrow> io \<Rightarrow> bool \<times> io" where
  "power_enabled P h = (let h = h @ [Power_get] in (power_get_rc P h = 1, h))"

text \<open>The error code of the write is only logged.\<close>

definition enable_power :: "platform \<Rightarrow> io \<Rightarrow> bool \<times> io" where
  "enable_power P h = (let (on, h) = power_enabled P h in if on then (False, h) else (True, h @ [Power_set 1]))"

definition disable_power :: "platform \<Rightarrow> io \<Rightarrow> bool \<times> io" where
  "disable_power P h = (let (on, h) = power_enabled P h in if \<not> on then (False, h) else (True, h @ [Power_set 0]))"

section \<open>Routes\<close>

text \<open>\<open>snprintf(buf + offset, sizeof(buf) - offset, \<dots>)\<close>: the array and the number of bytes wanted.\<close>

definition snprintf_at :: "string \<Rightarrow> nat \<Rightarrow> string \<Rightarrow> string \<times> nat" where
  "snprintf_at buf offset txt =
     (let (tail, written) = c_snprintf (drop offset buf) (MAX_PAYLOAD_LEN - offset) txt
      in (take offset buf @ tail, written))"

text \<open>The loop over the active routes; \<open>None\<close>: a piece did not fit.\<close>

fun print_routes :: "mems_route_key list \<Rightarrow> nat \<Rightarrow> string \<Rightarrow> nat \<Rightarrow> (string \<times> nat) option" where
  "print_routes [] i buf offset = Some (buf, offset)"
| "print_routes (k # ks) i buf offset =
     (let (buf, written, fits) =
            (if i > 0
             then let (buf, w) = snprintf_at buf offset '','' in (buf, w, w < MAX_PAYLOAD_LEN - offset)
             else (buf, 0, True))
      in if \<not> fits then None
         else let offset = offset + written;
                  (buf, w) = snprintf_at buf offset
                    (quoted (cstr (input_name k)) @ '':'' @ quoted (cstr (output_name k)))
              in if w \<ge> MAX_PAYLOAD_LEN - offset then None
                 else print_routes ks (Suc i) buf (offset + w))"

definition overflow_error :: string where
  "overflow_error = json_error ''overflow building JSON''"

definition memsroute_get :: handler where
  "memsroute_get R cmd s =
     (let keys = mems_router_active_routes (mems_switches s) (router s) (of_nat MEMS_ROUTER_MAX_ROUTES);
          (buf, offset) = snprintf_at (uninit R ''buf'' MAX_PAYLOAD_LEN) 0 (''{'' @ quoted ''active_routes'' @ '':{'')
      in case print_routes keys 0 buf offset of
           None \<Rightarrow> reply cmd RESP_ERROR overflow_error s
         | Some (buf, offset) \<Rightarrow>
             (let (buf, w) = snprintf_at buf offset ''}}''
              in if w \<ge> MAX_PAYLOAD_LEN - offset then reply cmd RESP_ERROR overflow_error s
                 else reply cmd RESP_OK buf s))"

text \<open>One call of \<open>mems_switch_set_state\<close> on a switch of the application.\<close>

definition set_switch :: "nat \<Rightarrow> char \<Rightarrow> tib \<Rightarrow> int \<times> tib" where
  "set_switch p c s =
     (let (rc, sw, h) = mems_switch_set_state (mems_switches s ! p) c (history s)
      in (rc, s\<lparr>mems_switches := (mems_switches s)[p := sw], history := h\<rparr>))"

text \<open>The loop over the steps of a route: the error reply it returns early with, if any.\<close>

fun run_steps :: "mems_route_step list \<Rightarrow> tib \<Rightarrow> string option \<times> tib" where
  "run_steps [] s = (None, s)"
| "run_steps (stp # stps) s =
     (case mems_router_find_switch (mems_switches s) (router s) (switch_name stp) of
        None \<Rightarrow> (Some (json_error ''Internal route error''), s)
      | Some p \<Rightarrow>
          (let (rc, s) = set_switch p (step_state stp) s
           in if rc \<noteq> 0
              then (Some (payload_text (json_error
                      (''Setting switch '' @ cstr (switch_name stp) @ '' to '' @ [step_state stp] @ '' failed''))), s)
              else run_steps stps s))"

definition memsroute_set :: handler where
  "memsroute_set R cmd s =
     (let (rc, input, output) = json_route_id (json R) (take (cmd_payload_len cmd) (cmd_payload cmd))
      in if rc < 0 then reply cmd RESP_ERROR (json_error ''Failed to parse JSON input or output'') s
         else case mems_router_get_route (router s) input output of
                None \<Rightarrow> reply cmd RESP_ERROR (json_error ''Invalid Route'') s
              | Some route \<Rightarrow>
                  (case run_steps (route_steps route) s of
                     (Some e, s) \<Rightarrow> reply cmd RESP_ERROR e s
                   | (None, s) \<Rightarrow> reply cmd RESP_OK json_ok s))"

section \<open>Single switches\<close>

definition mems_get :: handler where
  "mems_get R cmd s =
     (let (rc, name, mems_switch) =
            parse_key_pair (cmd_key cmd) (uninit R ''name'' 16) 15 (uninit R ''mems_switch'' 16) 15
      in if rc \<noteq> 0 then reply cmd RESP_ERROR (json_error ''Failed to parse mems switch name'') s
         else case mems_router_find_switch (mems_switches s) (router s) mems_switch of
                None \<Rightarrow> reply cmd RESP_ERROR (json_error ''Invalid switch name'') s
              | Some p \<Rightarrow>
                  (case mems_switch_get_state (Some (mems_switches s ! p)) (Some (stack_bytes R ''state'' 0)) of
                     (rc, Some st) \<Rightarrow>
                       reply cmd RESP_OK (payload_text (''{'' @ quoted ''value'' @ '':'' @ quoted [st] @ ''}'')) s
                   | (rc, None) \<Rightarrow> None))"

definition mems_set :: handler where
  "mems_set R cmd s =
     (let (rc, name, mems_switch) =
            parse_key_pair (cmd_key cmd) (uninit R ''name'' 16) 15 (uninit R ''mems_switch'' 16) 15
      in if rc \<noteq> 0 then reply cmd RESP_ERROR (json_error ''Failed to parse mems switch name'') s
         else let (rc, val) = json_value_string (json R) (take (cmd_payload_len cmd) (cmd_payload cmd))
              in if rc < 0 then reply cmd RESP_ERROR (json_error ''Failed to parse switch state'') s
                 else case mems_router_find_switch (mems_switches s) (router s) mems_switch of
                        None \<Rightarrow> reply cmd RESP_ERROR (json_error ''Invalid switch name'') s
                      | Some p \<Rightarrow>
                          (let (rc, s) = set_switch p (hd0 val) s
                           in if rc \<noteq> 0 then reply cmd RESP_ERROR (json_error ''Invalid switch state'') s
                              else reply cmd RESP_OK json_ok s))"

section \<open>Lasers\<close>

text \<open>\<open>laser_name + 5\<close> skips five bytes whatever they are.\<close>

definition laser_setting_get :: handler where
  "laser_setting_get R cmd s =
     (let (rc, laser_name, setting) =
            parse_key_pair (cmd_key cmd) (uninit R ''laser_name'' 16) 15 (uninit R ''setting'' 16) 15
      in if rc \<noteq> 0 then reply cmd RESP_ERROR (json_error ''Failed to parse laser/setting'') s
         else let node = get_laser_channel (drop 5 laser_name)
              in if node = LASER_UNKNOWN then reply cmd RESP_ERROR (json_error ''Invalid laser'') s
                 else case maiman_get_register_address setting (Some 0) of
                        (True, Some addr) \<Rightarrow>
                          (let (booting, h) = enable_power (board R) (history s);
                               h = (if booting then wait_laser_boot h else h);
                               (ok, val, h) = maiman_read_u16 (board R) \<lparr>node_id = of_nat node\<rparr> addr h;
                               s = s\<lparr>history := h\<rparr>
                           in if \<not> ok then reply cmd RESP_ERROR (json_error ''get_driver_setting failed'') s
                              else reply cmd RESP_OK
                                     (payload_text (''{'' @ quoted (cstr setting) @ '':'' @ show_int (sint val) @ ''}'')) s)
                      | _ \<Rightarrow> reply cmd RESP_ERROR (json_error ''Invalid laser setting'') s)"

definition laser_setting_set :: handler where
  "laser_setting_set R cmd s =
     (let (rc, laser_name, setting) =
            parse_key_pair (cmd_key cmd) (uninit R ''laser_name'' 16) 15 (uninit R ''setting'' 16) 15
      in if rc \<noteq> 0 then reply cmd RESP_ERROR (json_error ''Failed to parse laser/setting'') s
         else let (rc, val) = json_value_uint16 (json R) (take (cmd_payload_len cmd) (cmd_payload cmd))
              in if rc < 0 then reply cmd RESP_ERROR (json_error ''Missing setting value'') s
                 else let node = get_laser_channel (drop 5 laser_name)
                      in if node = LASER_UNKNOWN then reply cmd RESP_ERROR (json_error ''Invalid laser'') s
                         else case maiman_get_register_address setting (Some 0) of
                                (True, Some addr) \<Rightarrow>
                                  (let (booting, h) = enable_power (board R) (history s);
                                       h = (if booting then wait_laser_boot h else h);
                                       (ok, h) = maiman_write_u16 (board R) \<lparr>node_id = of_nat node\<rparr> addr val h;
                                       s = s\<lparr>history := h\<rparr>
                                   in if \<not> ok then reply cmd RESP_ERROR (json_error ''set_driver_setting failed'') s
                                      else reply cmd RESP_OK json_ok s)
                              | _ \<Rightarrow> reply cmd RESP_ERROR (json_error ''Invalid laser setting'') s)"

section \<open>Attenuators\<close>

definition show_f4_list :: "fp list \<Rightarrow> string" where
  "show_f4_list xs = ''['' @ show_f4 (xs ! 0) @ '','' @ show_f4 (xs ! 1) @ '','' @ show_f4 (xs ! 2) @ '']''"

definition atten_setting_get :: handler where
  "atten_setting_get R cmd s =
     (let (rc, atten_name, setting) =
            parse_key_pair (cmd_key cmd) (uninit R ''atten_name'' 16) 15 (uninit R ''setting'' 16) 15
      in if rc \<noteq> 0 then reply cmd RESP_ERROR (json_error ''Failed to parse atten/setting'') s
         else let laser_id = get_laser_channel (drop 5 atten_name); a = attenuators s ! laser_id
              in if laser_id = LASER_UNKNOWN then reply cmd RESP_ERROR (json_error ''Invalid attenuator'') s
                 else if c_strcasecmp setting ''coeff'' \<noteq> 0
                 then reply cmd RESP_OK
                        (payload_text (''{'' @ quoted ''db2volt'' @ '':'' @ show_f4_list (coeff_db_to_volt a) @ '','' @
                                       quoted ''volt2db'' @ '':'' @ show_f4_list (coeff_volt_to_db a) @ ''}'')) s
                 else if c_strcasecmp setting ''value'' \<noteq> 0 \<or> c_strcasecmp setting ''valuedb'' \<noteq> 0
                 then let (_, db) = attenuator_get a False; (_, volts) = attenuator_get a True
                      in reply cmd RESP_OK
                           (payload_text (''{'' @ quoted ''voltage'' @ '':'' @ show_f4 volts @ '','' @
                                          quoted ''db'' @ '':'' @ show_f4 db @ ''}'')) s
                 else reply cmd RESP_ERROR (json_error ''Invalid setting'') s)"

text \<open>\<open>attenuator_set(&attenuators[i], value, raw)\<close>, its result ignored.\<close>

definition set_attenuator :: "runtime \<Rightarrow> nat \<Rightarrow> fp \<Rightarrow> bool \<Rightarrow> tib \<Rightarrow> tib option" where
  "set_attenuator R i x raw s =
     (case attenuator_set (board R) (attenuators s ! i) x raw (history s) of
        None \<Rightarrow> None
      | Some (ok, a, h) \<Rightarrow> Some (s\<lparr>attenuators := (attenuators s)[i := a], history := h\<rparr>))"

definition store_coeffs :: "nat \<Rightarrow> (nat \<Rightarrow> fp) \<Rightarrow> (nat \<Rightarrow> fp) \<Rightarrow> tib \<Rightarrow> tib" where
  "store_coeffs i db2volt volt2db s =
     s\<lparr>attenuators := (attenuators s)[i := (attenuators s ! i)
          \<lparr>coeff_db_to_volt := map db2volt [0..<3], coeff_volt_to_db := map volt2db [0..<3]\<rparr>]\<rparr>"

text \<open>The two branches that parse a \<open>float\<close> and set the attenuator.\<close>

definition set_from_payload :: "runtime \<Rightarrow> Command \<Rightarrow> nat \<Rightarrow> bool \<Rightarrow> tib \<Rightarrow> (OutMsg \<times> tib) option" where
  "set_from_payload R cmd laser_id raw s =
     (let (rc, val) = json_value_float (json R) (take (cmd_payload_len cmd) (cmd_payload cmd))
      in if rc < 0 then reply cmd RESP_ERROR (json_error ''Missing setting value'') s
         else case set_attenuator R laser_id val raw s of
                None \<Rightarrow> None
              | Some s \<Rightarrow> reply cmd RESP_OK json_ok s)"

definition atten_setting_set :: handler where
  "atten_setting_set R cmd s =
     (let (rc, atten_name, setting) =
            parse_key_pair (cmd_key cmd) (uninit R ''atten_name'' 16) 15 (uninit R ''setting'' 16) 15
      in if rc \<noteq> 0 then reply cmd RESP_ERROR (json_error ''Failed to parse laser/setting'') s
         else let laser_id = get_laser_channel (drop 5 atten_name)
              in if laser_id = LASER_UNKNOWN then reply cmd RESP_ERROR (json_error ''Invalid attenuator'') s
                 else if c_strcasecmp setting ''coeff'' \<noteq> 0
                 then let (rc, db2volt, db2volt_len, volt2db, volt2db_len) =
                            json_coeffs (json R) (take (cmd_payload_len cmd) (cmd_payload cmd))
                      in if rc < 0 \<or> db2volt_len \<noteq> 3 \<or> volt2db_len \<noteq> 3
                         then reply cmd RESP_ERROR (json_error ''Improper arguments'') s
                         else let (_, db) = attenuator_get (attenuators s ! laser_id) False;
                                  s = store_coeffs laser_id db2volt volt2db s
                              in case set_attenuator R laser_id db False s of
                                   None \<Rightarrow> None
                                 | Some s \<Rightarrow> reply cmd RESP_OK json_ok s
                 else if c_strcasecmp setting ''value'' \<noteq> 0 then set_from_payload R cmd laser_id True s
                 else if c_strcasecmp setting ''valuedb'' \<noteq> 0 then set_from_payload R cmd laser_id False s
                 else reply cmd RESP_ERROR (json_error ''Invalid setting'') s)"

section \<open>Status, power and sleep\<close>

definition power_text :: "bool \<Rightarrow> string" where
  "power_text on = payload_text (''{'' @ quoted ''power'' @ '':'' @ (if on then ''true'' else ''false'') @ ''}'')"

definition status_get :: handler where
  "status_get R cmd s =
     (let (on, h) = power_enabled (board R) (history s)
      in reply cmd RESP_OK (power_text on) (s\<lparr>history := h\<rparr>))"

definition power_get :: handler where
  "power_get R cmd s =
     (let (on, h) = power_enabled (board R) (history s)
      in reply cmd RESP_OK (power_text on) (s\<lparr>history := h\<rparr>))"

definition power_set :: handler where
  "power_set R cmd s =
     (let (rc, val) = json_value_bool (json R) (take (cmd_payload_len cmd) (cmd_payload cmd))
      in if rc < 0 then reply cmd RESP_ERROR (json_error ''Missing setting value'') s
         else let (_, h) = (if val then enable_power (board R) (history s) else disable_power (board R) (history s))
              in reply cmd RESP_ERROR json_ok (s\<lparr>history := h\<rparr>))"

definition sleep_set :: handler where
  "sleep_set R cmd s =
     (let (rc, val) = json_value_bool (json R) (take (cmd_payload_len cmd) (cmd_payload cmd))
      in if rc < 0 then reply cmd RESP_ERROR (json_error ''Missing setting value'') s
         else let h = (if val then snd (disable_power (board R) (history s)) else history s)
              in reply cmd RESP_ERROR json_ok (s\<lparr>history := h\<rparr>))"

section \<open>Dispatch\<close>

definition dispatch_table :: "DispatchEntry list" where
  "dispatch_table =
     [\<lparr>entry_key = ''memsroute'', get_handler = Some memsroute_get, set_handler = Some memsroute_set\<rparr>,
      \<lparr>entry_key = ''mems'', get_handler = Some mems_get, set_handler = Some mems_set\<rparr>,
      \<lparr>entry_key = ''laser'', get_handler = Some laser_setting_get, set_handler = Some laser_setting_set\<rparr>,
      \<lparr>entry_key = ''power'', get_handler = Some power_get, set_handler = Some power_set\<rparr>,
      \<lparr>entry_key = ''atten'', get_handler = Some atten_setting_get, set_handler = Some atten_setting_set\<rparr>,
      \<lparr>entry_key = ''status'', get_handler = Some status_get, set_handler = None\<rparr>,
      \<lparr>entry_key = ''sleep'', get_handler = None, set_handler = Some sleep_set\<rparr>]"

fun find_entry :: "DispatchEntry list \<Rightarrow> string \<Rightarrow> DispatchEntry option" where
  "find_entry [] key = None"
| "find_entry (e # es) key = (if c_strcmp (entry_key e) key = 0 then Some e else find_entry es key)"

definition find_dispatch :: "string \<Rightarrow> DispatchEntry option" where
  "find_dispatch key = find_entry dispatch_table key"

definition dispatch_command :: "runtime \<Rightarrow> Command \<Rightarrow> tib \<Rightarrow> (OutMsg \<times> tib) option" where
  "dispatch_command R cmd s =
     (case find_dispatch (cmd_key cmd) of
        None \<Rightarrow> Some (unknown_response cmd, s)
      | Some entry \<Rightarrow>
          (case (if cmd_msg_type cmd = SET then set_handler entry else get_handler entry) of
             None \<Rightarrow> Some (unsupported_response cmd, s)
           | Some func \<Rightarrow> func R cmd s))"

end
