(* ===== verification/Command_Contract.thy ===== *)
theory Command_Contract
  imports Command
begin

text \<open>
  What every handler of \<open>app/src/command.c\<close> promises: replies with terminated texts that fit their
  arrays, addressed to the sender, and the invariant of the application kept. The promise is the locale
  \<open>handler_contract\<close>, interpreted on each of the twelve handlers and on the dispatcher.
\<close>

section \<open>Replies\<close>

text \<open>The arrays of a command and of a message have their sizes, and a message's text is terminated.\<close>

definition command_wf :: "Command \<Rightarrow> bool" where
  "command_wf c \<longleftrightarrow>
     length (cmd_key c) = MAX_KEY_LEN \<and> length (cmd_response_topic c) = MAX_TOPIC_LEN \<and>
     length (cmd_payload c) = MAX_PAYLOAD_LEN \<and> length (cmd_correlation_data c) = MAX_CORRELATION_DATA"

definition out_msg_wf :: "OutMsg \<Rightarrow> bool" where
  "out_msg_wf m \<longleftrightarrow>
     length (out_topic m) = MAX_TOPIC_LEN \<and> c_strlen (out_topic m) < MAX_TOPIC_LEN \<and>
     length (out_payload m) = MAX_PAYLOAD_LEN \<and> c_strlen (out_payload m) = out_payload_len m \<and>
     out_payload_len m < MAX_PAYLOAD_LEN \<and>
     length (out_correlation_data m) = MAX_CORRELATION_DATA \<and> out_corr_len m < MAX_CORRELATION_DATA"

text \<open>A message answers a command: its topic and correlation data are the ones the sender asked for.\<close>

definition answers :: "Command \<Rightarrow> OutMsg \<Rightarrow> bool" where
  "answers c m \<longleftrightarrow>
     out_msg_wf m \<and> out_qos m = 1 \<and> (out_msg_type m = RESP_OK \<or> out_msg_type m = RESP_ERROR) \<and>
     cstr (out_topic m) =
       (if 0 < c_strlen (cmd_response_topic c) \<and> c_strlen (cmd_response_topic c) < MAX_TOPIC_LEN
        then cstr (cmd_response_topic c) else default_topic) \<and>
     take (out_corr_len m) (out_correlation_data m) =
       (if 0 < cmd_corr_len c \<and> cmd_corr_len c < MAX_CORRELATION_DATA
        then take (cmd_corr_len c) (cmd_correlation_data c) else [])"

lemma default_topic_facts [simp]: "cstr default_topic = default_topic" "length default_topic = 18"
  by code_simp+

lemma topic_copy:
  assumes "c_strlen t < 64"
  shows "cstr (c_strncpy dst t 63) = cstr t \<or> length (cstr t) = 63"
  using assms cstr_c_strncpy [of t 63 dst] by (auto simp: c_strlen_def)

lemma topic_over_default:
  assumes "c_strlen t < 64"
  shows "cstr (c_strncpy (c_strncpy (replicate 64 NUL) default_topic 63) t 63) = cstr t"
proof -
  have "c_strncpy (replicate 64 NUL) default_topic 63 ! 63 = NUL"
    by (simp add: c_strncpy_def mem_write_def nth_append)
  then show ?thesis
    using assms cstr_c_strncpy [of t 63 "c_strncpy (replicate 64 NUL) default_topic 63"]
    by (simp add: c_strlen_def)
qed

lemma msg_builder_payload:
  assumes "c_strlen msg \<le> 255"
  shows "cstr (out_payload (msg_builder c t msg)) = cstr msg"
    and "length (out_payload (msg_builder c t msg)) = 256"
    and "out_payload_len (msg_builder c t msg) = c_strlen msg"
    and "out_msg_type (msg_builder c t msg) = t"
    and "out_qos (msg_builder c t msg) = 1"
proof -
  have p: "out_payload (msg_builder c t msg) = c_strncpy (replicate 256 NUL) msg 255"
    by (simp add: msg_builder_def Let_def zero_OutMsg_def MAX_PAYLOAD_LEN_def split: option.split)
  show "cstr (out_payload (msg_builder c t msg)) = cstr msg"
    using assms cstr_c_strncpy [of msg 255 "replicate 256 NUL"] by (simp add: p c_strlen_def)
  show "length (out_payload (msg_builder c t msg)) = 256" by (simp add: p)
qed (simp_all add: msg_builder_def Let_def split: option.split)

lemma msg_builder_topic:
  "length (out_topic (msg_builder (Some c) t msg)) = 64"
  "cstr (out_topic (msg_builder (Some c) t msg)) =
     (if 0 < c_strlen (cmd_response_topic c) \<and> c_strlen (cmd_response_topic c) < 64
      then cstr (cmd_response_topic c) else default_topic)"
  using topic_over_default [of "cmd_response_topic c"] cstr_c_strncpy [of default_topic 63 "replicate 64 NUL"]
  by (auto simp: msg_builder_def Let_def zero_OutMsg_def MAX_TOPIC_LEN_def)

lemma msg_builder_corr:
  assumes "length (cmd_correlation_data c) = 16"
  shows "length (out_correlation_data (msg_builder (Some c) t msg)) = 16"
    and "out_corr_len (msg_builder (Some c) t msg) = (if 0 < cmd_corr_len c \<and> cmd_corr_len c < 16 then cmd_corr_len c else 0)"
    and "take (out_corr_len (msg_builder (Some c) t msg)) (out_correlation_data (msg_builder (Some c) t msg)) =
      (if 0 < cmd_corr_len c \<and> cmd_corr_len c < 16 then take (cmd_corr_len c) (cmd_correlation_data c) else [])"
  using assms by (auto simp: msg_builder_def Let_def zero_OutMsg_def MAX_CORRELATION_DATA_def mem_write_def)

lemma msg_builder_answers:
  assumes "command_wf c" and "c_strlen msg \<le> 255" and "t = RESP_OK \<or> t = RESP_ERROR"
  shows "answers c (msg_builder (Some c) t msg)"
  using assms msg_builder_payload [OF assms(2), of "Some c" t] msg_builder_topic [of c t msg] msg_builder_corr [of c t msg]
  by (auto simp: answers_def out_msg_wf_def command_wf_def c_strlen_def tib_defs)

lemma payload_text_short: "c_strlen (payload_text txt) \<le> 255"
proof -
  have "payload_text txt = take 255 txt @ NUL # drop (length (take 255 txt @ [NUL])) (replicate 256 NUL)"
    by (simp add: payload_text_def c_snprintf_def mem_write_def MAX_PAYLOAD_LEN_def)
  moreover have "length (cstr (xs @ NUL # ys)) \<le> length xs" for xs ys
    by (induction xs) (auto simp: cstr_def)
  ultimately show ?thesis unfolding c_strlen_def by (metis length_take min.boundedE min.cobounded2 order_trans)
qed

lemma payload_text_id: "NUL \<notin> set txt \<Longrightarrow> length txt \<le> 255 \<Longrightarrow> cstr (payload_text txt) = txt"
  by (simp add: payload_text_def c_snprintf_def cstr_mem_write MAX_PAYLOAD_LEN_def)

lemma json_error_short: "length e \<le> 200 \<Longrightarrow> c_strlen (json_error e) \<le> 255"
  using length_cstr_le [of "json_error e"] by (simp add: c_strlen_def json_error_def quoted_def)

lemma json_ok_short: "c_strlen json_ok \<le> 255"
  by code_simp

section \<open>The text of the active routes\<close>

lemma msg_builder_cstr:
  assumes "cstr a = cstr b"
  shows "msg_builder c t a = msg_builder c t b"
  unfolding msg_builder_def Let_def c_strncpy_def c_strlen_def assms by (rule refl)

lemma cstr_append: "NUL \<notin> set s \<Longrightarrow> cstr (s @ t) = s @ cstr t"
  by (induction s) (auto simp: cstr_Cons)

lemma reply_cstr: "cstr a = cstr b \<Longrightarrow> reply c t a s = reply c t b s"
  unfolding reply_def by (simp only: msg_builder_cstr [of a b])

lemma snprintf_at_fits:
  assumes "length buf = 256" and "NUL \<notin> set txt" and "offset + length txt < 256"
    and "snprintf_at buf offset txt = (buf', w)"
  shows "w = length txt" and "length buf' = 256" and "take (offset + length txt) buf' = take offset buf @ txt"
    and "cstr (drop offset buf') = txt"
proof -
  let ?tail = "txt @ NUL # drop (Suc (length txt)) (drop offset buf)"
  have "take (256 - offset - Suc 0) txt = txt" using assms(3) by simp
  moreover have "256 - offset \<noteq> 0" using assms(3) by linarith
  ultimately have c: "c_snprintf (drop offset buf) (256 - offset) txt = (?tail, length txt)"
    by (simp add: c_snprintf_def mem_write_def)
  then have "snprintf_at buf offset txt = (take offset buf @ ?tail, length txt)"
    by (simp only: snprintf_at_def MAX_PAYLOAD_LEN_def Let_def prod.case)
  then have "(take offset buf @ ?tail, length txt) = (buf', w)" using assms(4) by (rule subst)
  note pe = this
  have b: "buf' = take offset buf @ ?tail" "w = length txt"
    using arg_cong [OF pe, of fst] arg_cong [OF pe, of snd] by (simp_all only: fst_conv snd_conv)
  have o: "length (take offset buf) = offset" using assms(1,3) by simp
  show "w = length txt" by (rule b(2))
  show "length buf' = 256" using assms(1,3) by (simp add: b(1))
  show "take (offset + length txt) buf' = take offset buf @ txt"
    using assms(1,3) by (simp add: b(1))
  show "cstr (drop offset buf') = txt" using assms by (simp add: b(1) cstr_append_NUL)
qed

lemma snprintf_at_prefix:
  "length buf = 256 \<Longrightarrow> offset \<le> 256 \<Longrightarrow> snprintf_at buf offset txt = (buf', w) \<Longrightarrow> take offset buf' = take offset buf"
  by (auto simp: snprintf_at_def case_prod_unfold Let_def)

lemma cstr_pieces: "take n b = p \<Longrightarrow> NUL \<notin> set p \<Longrightarrow> cstr (drop n b) = q \<Longrightarrow> cstr b = p @ q"
  by (metis append_take_drop_id cstr_append)

lemma snprintf_at_written: "snd (snprintf_at buf offset txt) = length txt"
  by (simp add: snprintf_at_def c_snprintf_def case_prod_unfold)

text \<open>The same text as one expression.\<close>

fun commas :: "string list \<Rightarrow> string" where
  "commas [] = []"
| "commas [x] = x"
| "commas (x # y # zs) = x @ '','' @ commas (y # zs)"

definition route_json :: "mems_route_key \<Rightarrow> string" where
  "route_json k = quoted (cstr (input_name k)) @ '':'' @ quoted (cstr (output_name k))"

definition active_json :: "mems_route_key list \<Rightarrow> string" where
  "active_json ks = ''{'' @ quoted ''active_routes'' @ '':{'' @ commas (map route_json ks) @ ''}}''"

definition routes_from :: "nat \<Rightarrow> mems_route_key list \<Rightarrow> string" where
  "routes_from i ks = (if ks = [] then [] else (if i > 0 then '','' else []) @ commas (map route_json ks))"

lemma routes_from_Cons:
  "routes_from i (k # ks) = (if i > 0 then '','' else []) @ route_json k @ routes_from (Suc i) ks"
  by (cases ks) (simp_all add: routes_from_def)

lemma NUL_notin_route_json [simp]: "NUL \<notin> set (route_json k)"
  by (simp add: route_json_def quoted_def) (simp add: NUL_def)

lemma NUL_notin_routes_from: "NUL \<notin> set (routes_from i ks)"
  by (induction ks arbitrary: i) (auto simp: routes_from_Cons, auto simp: routes_from_def NUL_def)

lemma print_routes_text:
  assumes "length buf = 256" and "offset < 256"
  shows "(case print_routes ks i buf offset of
            None \<Rightarrow> 256 \<le> offset + length (routes_from i ks)
          | Some (buf', offset') \<Rightarrow>
              offset' = offset + length (routes_from i ks) \<and> offset' < 256 \<and> length buf' = 256 \<and>
              take offset' buf' = take offset buf @ routes_from i ks)"
  using assms
proof (induction ks arbitrary: i buf offset)
  case Nil
  then show ?case by (simp add: routes_from_def)
next
  case (Cons k ks)
  let ?sep = "if i > 0 then '','' else []"
  have sep: "NUL \<notin> set ?sep" by (simp add: NUL_def)
  obtain b w fits where s: "(if i > 0 then let (b, w) = snprintf_at buf offset '','' in (b, w, w < MAX_PAYLOAD_LEN - offset)
       else (buf, 0, True)) = (b, w, fits)" by (rule prod_cases3)
  have f: "fits \<longleftrightarrow> offset + length ?sep < 256"
    using s Cons.prems(2) snprintf_at_written [of buf offset "'',''"]
    by (cases "i > 0"; cases "snprintf_at buf offset '',''") (auto simp: MAX_PAYLOAD_LEN_def)
  have rj: "quoted (cstr (input_name k)) @ '':'' @ quoted (cstr (output_name k)) = route_json k"
    by (simp add: route_json_def)
  show ?case
  proof (cases fits)
    case False
    then have "print_routes (k # ks) i buf offset = None"
      using s by (simp only: print_routes.simps Let_def) simp
    with False f show ?thesis by (simp add: routes_from_Cons)
  next
    case True
    have w: "w = length ?sep" "length b = 256" "take (offset + w) b = take offset buf @ ?sep"
      using s True f Cons.prems snprintf_at_fits [OF Cons.prems(1) sep, of offset b w]
      by (cases "i > 0"; cases "snprintf_at buf offset '',''"; simp)+
    obtain b2 w2 where s2: "snprintf_at b (offset + w) (route_json k) = (b2, w2)" by fastforce
    have w2: "w2 = length (route_json k)" using snprintf_at_written [of b "offset + w" "route_json k"] s2 by simp
    have step: "print_routes (k # ks) i buf offset =
        (if w2 \<ge> 256 - (offset + w) then None else print_routes ks (Suc i) b2 (offset + w + w2))"
      using s True s2 by (simp only: print_routes.simps Let_def rj) (simp add: MAX_PAYLOAD_LEN_def)
    show ?thesis
    proof (cases "offset + w + w2 < 256")
      case False
      then have "256 - (offset + w) \<le> w2" by linarith
      then have "print_routes (k # ks) i buf offset = None" unfolding step by simp
      with False w(1) w2 show ?thesis by (simp add: routes_from_Cons)
    next
      case f2: True
      have b2: "length b2 = 256" "take (offset + w + w2) b2 = take offset buf @ ?sep @ route_json k"
        using snprintf_at_fits [OF w(2) NUL_notin_route_json _ s2] f2 w(3) w2 by simp_all
      have "\<not> 256 - (offset + w) \<le> w2" using f2 by linarith
      then have "print_routes (k # ks) i buf offset = print_routes ks (Suc i) b2 (offset + w + w2)"
        unfolding step by simp
      then show ?thesis
        using Cons.IH [OF b2(1) f2, of "Suc i"] b2(2) w(1) w2
        by (auto simp: routes_from_Cons split: option.splits)
    qed
  qed
qed

lemma memsroute_get_text:
  fixes R cmd s
  defines "keys \<equiv> mems_router_active_routes (mems_switches s) (router s) 18"
  shows "memsroute_get R cmd s =
     (if length (active_json keys) < 256 then reply cmd RESP_OK (active_json keys) s
      else reply cmd RESP_ERROR overflow_error s)"
proof -
  let ?head = "''{'' @ quoted ''active_routes'' @ '':{''"
  have lens: "length ?head = 18" and hd: "NUL \<notin> set ?head" by (simp_all add: quoted_def NUL_def)
  have aj: "active_json keys = ?head @ routes_from 0 keys @ ''}}''"
    by (simp add: active_json_def routes_from_def)
  have len: "length (active_json keys) = 20 + length (routes_from 0 keys)"
    using lens unfolding aj length_append by simp
  obtain b w where s0: "snprintf_at (uninit R ''buf'' 256) 0 ?head = (b, w)" by fastforce
  have lu: "length (uninit R ''buf'' 256) = 256" by (simp add: uninit_def)
  have b: "w = 18" "length b = 256" "take 18 b = ?head"
    using snprintf_at_fits [OF lu hd _ s0] lens by simp_all
  have p: "print_routes keys 0 b w = None \<longrightarrow> 256 \<le> 18 + length (routes_from 0 keys)"
    "print_routes keys 0 b w = Some (b', o') \<longrightarrow> o' = 18 + length (routes_from 0 keys) \<and> o' < 256 \<and> length b' = 256 \<and>
        take o' b' = ?head @ routes_from 0 keys" for b' o'
    using print_routes_text [OF b(2), where offset = w and ks = keys and i = 0] b by auto
  have def: "memsroute_get R cmd s = (case print_routes keys 0 b w of
           None \<Rightarrow> reply cmd RESP_ERROR overflow_error s
         | Some (buf, offset) \<Rightarrow>
             (let (buf, w) = snprintf_at buf offset ''}}''
              in if w \<ge> 256 - offset then reply cmd RESP_ERROR overflow_error s
                 else reply cmd RESP_OK buf s))"
    using s0 unfolding memsroute_get_def keys_def MAX_PAYLOAD_LEN_def MEMS_ROUTER_MAX_ROUTES_def Let_def by (simp only: prod.case of_nat_numeral)
  show ?thesis
  proof (cases "print_routes keys 0 b w")
    case None
    with p(1) have "\<not> length (active_json keys) < 256" by (simp add: len)
    with None show ?thesis by (simp add: def)
  next
    case (Some r)
    then obtain b' o' where r: "print_routes keys 0 b w = Some (b', o')" by (cases r) auto
    with p(2) have o': "o' = 18 + length (routes_from 0 keys)" "o' < 256" "length b' = 256"
        "take o' b' = ?head @ routes_from 0 keys" by blast+
    obtain b2 w2 where s2: "snprintf_at b' o' ''}}'' = (b2, w2)" by fastforce
    have w2: "w2 = 2" using snprintf_at_written [of b' o' "''}}''"] s2 by simp
    show ?thesis
    proof (cases "o' + 2 < 256")
      case False
      then have "\<not> length (active_json keys) < 256" "256 - o' \<le> w2" using o'(1) w2 by (simp_all add: len)
      then show ?thesis using r s2 by (simp add: def)
    next
      case True
      have "NUL \<notin> set ''}}''" by (simp add: NUL_def)
      from snprintf_at_fits [OF o'(3) this _ s2] True
      have "length b2 = 256" "take (o' + 2) b2 = active_json keys" "cstr (drop o' b2) = ''}}''"
        using o'(4) by (simp_all add: aj)
      then have p2: "take o' b2 = ?head @ routes_from 0 keys" and q2: "cstr (drop o' b2) = ''}}''"
        using snprintf_at_prefix [OF o'(3) _ s2] o'(2,4) by simp_all
      have "NUL \<notin> set (?head @ routes_from 0 keys)" using hd NUL_notin_routes_from by auto
      from cstr_pieces [OF p2 this q2] have "cstr b2 = active_json keys" by (simp only: aj append.assoc)
      moreover have "cstr (active_json keys) = active_json keys"
        by (rule cstr_id) (use NUL_notin_routes_from hd in \<open>simp add: aj NUL_def\<close>)
      ultimately have rep: "reply cmd RESP_OK b2 s = reply cmd RESP_OK (active_json keys) s"
        by (intro reply_cstr) simp
      have "\<not> 256 - o' \<le> w2" "length (active_json keys) < 256" using True w2 o'(1) by (simp_all add: len)
      then show ?thesis using r s2 rep by (simp add: def)
    qed
  qed
qed

section \<open>The contract of a handler\<close>

text \<open>
  What the dispatcher, and the executor behind it, rely on: a handler keeps the invariant of the
  application and its reply answers the command. Every handler of the table is an instance, and so is
  the dispatcher.
\<close>

locale handler_contract =
  fixes func :: handler
  assumes contract: "tib_inv s \<Longrightarrow> command_wf c \<Longrightarrow> func R c s = Some (m, s') \<Longrightarrow> tib_inv s' \<and> answers c m"
begin

lemma chain:
  assumes "tib_inv s" and "command_wf c" and "func R c s = Some (m, s')"
    and "command_wf c'" and "func R' c' s' = Some (m', s'')"
  shows "tib_inv s'' \<and> answers c m \<and> answers c' m'"
  using contract [OF assms(1-3)] contract [OF _ assms(4,5)] by blast

end

definition contract_ok :: "Command \<Rightarrow> (OutMsg \<times> tib) option \<Rightarrow> bool" where
  "contract_ok c r \<longleftrightarrow> (\<forall>m s'. r = Some (m, s') \<longrightarrow> tib_inv s' \<and> answers c m)"

named_theorems contract_intros \<open>replies that keep the contract\<close>

lemma contract_reply [contract_intros]:
  assumes "command_wf c" and "tib_inv s" and "c_strlen msg \<le> 255" and "t = RESP_OK \<or> t = RESP_ERROR"
  shows "contract_ok c (reply c t msg s)"
  using msg_builder_answers [OF assms(1,3,4)] assms(2) by (simp add: contract_ok_def reply_def)

lemma contract_None [contract_intros]: "contract_ok c None"
  by (simp add: contract_ok_def)

lemma handler_contractI:
  assumes "\<And>R c s. command_wf c \<Longrightarrow> tib_inv s \<Longrightarrow> contract_ok c (func R c s)"
  shows "handler_contract func"
  using assms by unfold_locales (auto simp: contract_ok_def)

text \<open>Events other than a write to a switch pin keep the recorded positions right.\<close>

fun is_pin_set :: "io_event \<Rightarrow> bool" where
  "is_pin_set (Gpio_pin_set d p v) = True"
| "is_pin_set _ = False"

lemma latch_event_other: "\<not> is_pin_set e \<Longrightarrow> latch_event d a b c e = c"
  by (cases e) simp_all

lemma bank_agrees_other:
  assumes "bank_agrees b h" and "list_all (\<lambda>e. \<not> is_pin_set e) es"
  shows "bank_agrees b (h @ es)"
proof -
  have "foldl (latch_event d a p) c es = c" for d a p c
    using assms(2) by (induction es arbitrary: c) (auto simp: latch_event_other)
  then show ?thesis using assms(1) by (simp add: bank_agrees_def latched_append)
qed

lemma tib_inv_history:
  "tib_inv s \<Longrightarrow> list_all (\<lambda>e. \<not> is_pin_set e) es \<Longrightarrow> tib_inv (s\<lparr>history := history s @ es\<rparr>)"
  by (simp add: tib_inv_def switches_inv_def bank_agrees_other)

lemma power_enabled_history: "snd (power_enabled P h) = h @ [Power_get]"
  by (simp add: power_enabled_def Let_def)

lemma power_histories:
  "\<exists>es. snd (enable_power P h) = h @ es \<and> list_all (\<lambda>e. \<not> is_pin_set e) es"
  "\<exists>es. snd (disable_power P h) = h @ es \<and> list_all (\<lambda>e. \<not> is_pin_set e) es"
  by (simp_all add: enable_power_def disable_power_def case_prod_unfold power_enabled_history Let_def)

text \<open>Setting a switch found by its name.\<close>

lemma set_switch_spec:
  assumes inv: "tib_inv s" and find: "mems_router_find_switch (mems_switches s) (router s) name = Some p"
  shows "tib_inv (snd (set_switch p c s))"
    and "fst (set_switch p c s) = (if legal_state c then 0 else -1)"
    and "mems_switches (snd (set_switch p c s)) =
         (if legal_state c then (mems_switches s)[p := (mems_switches s ! p)\<lparr>sw_state := c\<rparr>] else mems_switches s)"
    and "router (snd (set_switch p c s)) = router s"
    and "attenuators (snd (set_switch p c s)) = attenuators s"
proof -
  let ?b = "mems_switches s"
  obtain rc sw h where set: "mems_switch_set_state (?b ! p) c (history s) = (rc, sw, h)" by (metis prod_cases3)
  then have def: "set_switch p c s = (rc, s\<lparr>mems_switches := ?b[p := sw], history := h\<rparr>)"
    by (simp add: set_switch_def)
  have i: "router s = booted_router" "map sw_name ?b = tib_names" "pins_distinct ?b"
    "bank_agrees ?b (history s)" "list_all (\<lambda>sw. sw_state sw \<in> set abu) ?b" "attenuators_inv (attenuators s)"
    using inv by (simp_all add: tib_inv_def switches_inv_def)
  have "length ?b = 8" using arg_cong [OF i(2), of length] by simp
  moreover have "p \<in> set [0..<8]" using find_switch_in [OF find] by (simp add: i(1) booted_router_def)
  ultimately have p: "p < length ?b" by simp
  note f = set_state_fields [OF set]
  have sw: "sw = (if legal_state c then (?b ! p)\<lparr>sw_state := c\<rparr> else ?b ! p)"
    using set_state_switch [of "?b ! p" c "history s"] set by simp
  have "sw_state sw \<in> set abu"
    using i(5) p by (auto simp: sw legal_state_def abu_def list_all_length)
  then have "list_all (\<lambda>sw. sw_state sw \<in> set abu) (?b[p := sw])"
    using i(5) by (auto simp: list_all_iff dest: set_update_subset_insert [THEN subsetD])
  moreover have "map sw_name (?b[p := sw]) = tib_names"
    using f i(2) by (metis list_update_id map_update)
  moreover have "pins_distinct (?b[p := sw])" using pins_distinct_update [of sw ?b p] f i(3) by simp
  moreover have "bank_agrees (?b[p := sw]) h" by (rule set_state_agrees [OF i(3,4) p set])
  ultimately show "tib_inv (snd (set_switch p c s))"
    using i by (simp add: def tib_inv_def switches_inv_def)
  show "fst (set_switch p c s) = (if legal_state c then 0 else -1)"
    using set by (auto simp: def mems_switch_set_state_def legal_state_def split: if_splits)
  show "mems_switches (snd (set_switch p c s)) =
         (if legal_state c then ?b[p := (?b ! p)\<lparr>sw_state := c\<rparr>] else ?b)"
    by (simp add: def sw)
qed (simp_all add: set_switch_def split: prod.split)

lemma set_switch_eq: "set_switch p c s = (fst (set_switch p c s), snd (set_switch p c s))"
  by simp

lemma run_steps_inv:
  assumes "tib_inv s"
  shows "tib_inv (snd (run_steps stps s)) \<and> (\<forall>e. fst (run_steps stps s) = Some e \<longrightarrow> c_strlen e \<le> 255)"
  using assms
proof (induction stps arbitrary: s)
  case (Cons stp stps)
  show ?case
  proof (cases "mems_router_find_switch (mems_switches s) (router s) (switch_name stp)")
    case None
    with Cons.prems show ?thesis by (simp add: json_error_short)
  next
    case (Some p)
    from Cons.IH [OF set_switch_spec(1) [OF Cons.prems Some]] set_switch_spec(1) [OF Cons.prems Some] Some
    show ?thesis by (simp add: case_prod_unfold Let_def payload_text_short)
  qed
qed simp

lemma attenuator_set_frame:
  assumes "attenuator_set P a x raw h = Some (ok, a', h')"
  shows "a' = a\<lparr>voltage := voltage a'\<rparr> \<and> (\<exists>es. h' = h @ es \<and> list_all (\<lambda>e. \<not> is_pin_set e) es)"
  using assms by (auto simp: attenuator_set_def Let_def split: if_splits option.splits)

lemma attenuators_inv_update:
  assumes "attenuators_inv as" and "i < length as"
    and "cfg a = cfg (as ! i)" and "length (coeff_db_to_volt a) = 3" and "length (coeff_volt_to_db a) = 3"
  shows "attenuators_inv (as[i := a])"
  using assms by (auto simp: attenuators_inv_def list_all_iff nth_list_update)

lemma get_laser_channel_range: "get_laser_channel n \<noteq> LASER_UNKNOWN \<Longrightarrow> get_laser_channel n < 6"
  by (simp add: get_laser_channel_def tib_defs split: if_splits)

lemma set_attenuator_inv:
  assumes inv: "tib_inv s" and i: "i < 6" and set: "set_attenuator R i x raw s = Some s'"
  shows "tib_inv s'"
proof -
  from set obtain ok a h where a: "attenuator_set (board R) (attenuators s ! i) x raw (history s) = Some (ok, a, h)"
    and s': "s' = s\<lparr>attenuators := (attenuators s)[i := a], history := h\<rparr>"
    by (auto simp: set_attenuator_def split: option.splits)
  from attenuator_set_frame [OF a] obtain es where f: "a = (attenuators s ! i)\<lparr>voltage := voltage a\<rparr>"
    and es: "h = history s @ es" "list_all (\<lambda>e. \<not> is_pin_set e) es" by blast
  have ai: "attenuators_inv (attenuators s)" using inv by (simp add: tib_inv_def)
  then have l: "length (attenuators s) = 6" by (simp add: attenuators_inv_def NUM_ATTENUATORS_def)
  have "cfg a = cfg (attenuators s ! i)" "coeff_db_to_volt a = coeff_db_to_volt (attenuators s ! i)"
    "coeff_volt_to_db a = coeff_volt_to_db (attenuators s ! i)"
    using arg_cong [OF f, of cfg] arg_cong [OF f, of coeff_db_to_volt] arg_cong [OF f, of coeff_volt_to_db] by simp_all
  moreover have "length (coeff_db_to_volt (attenuators s ! i)) = 3" "length (coeff_volt_to_db (attenuators s ! i)) = 3"
    using ai i by (auto simp: attenuators_inv_def list_all_iff NUM_ATTENUATORS_def)
  ultimately have "attenuators_inv ((attenuators s)[i := a])"
    using attenuators_inv_update [OF ai, of i a] i l by simp
  with tib_inv_history [OF inv es(2)] show ?thesis
    by (simp add: s' es(1) tib_inv_def)
qed

lemma store_coeffs_inv:
  assumes inv: "tib_inv s" and i: "i < 6"
  shows "tib_inv (store_coeffs i f g s)"
proof -
  have ai: "attenuators_inv (attenuators s)" using inv by (simp add: tib_inv_def)
  then have "length (attenuators s) = 6" by (simp add: attenuators_inv_def NUM_ATTENUATORS_def)
  then show ?thesis
    using attenuators_inv_update [OF ai, of i] i inv by (simp add: store_coeffs_def tib_inv_def)
qed

section \<open>Every handler keeps the contract\<close>

lemma json_errors_short [contract_intros]:
  "length e \<le> 200 \<Longrightarrow> c_strlen (json_error e) \<le> 255"
  by (rule json_error_short)

lemmas reply_texts = payload_text_short json_ok_short json_error_short

lemma contract_if: "(b \<Longrightarrow> contract_ok c x) \<Longrightarrow> (\<not> b \<Longrightarrow> contract_ok c y) \<Longrightarrow> contract_ok c (if b then x else y)"
  by simp

lemma contract_option:
  "(x = None \<Longrightarrow> contract_ok c a) \<Longrightarrow> (\<And>y. x = Some y \<Longrightarrow> contract_ok c (f y)) \<Longrightarrow>
     contract_ok c (case x of None \<Rightarrow> a | Some y \<Rightarrow> f y)"
  by (cases x) simp_all

lemma contract_bool:
  "(b \<Longrightarrow> contract_ok c x) \<Longrightarrow> (\<not> b \<Longrightarrow> contract_ok c y) \<Longrightarrow>
     contract_ok c (case b of True \<Rightarrow> x | False \<Rightarrow> y)"
  by (cases b) simp_all

lemmas contract_cases = contract_if contract_option contract_bool contract_reply contract_None

lemma active_json_short:
  assumes "tib_inv s"
  shows "length (active_json (mems_router_active_routes (mems_switches s) (router s) 18)) \<le> 130"
proof -
  let ?ks = "mems_router_active_routes (mems_switches s) (router s) 18"
  have w: "sum_list (map key_width ?ks) \<le> 110"
    using assms active_keys_bounds(3) [of "mems_switches s"] by (simp add: tib_inv_def switches_inv_def)
  have r: "length (route_json k) + 1 \<le> key_width k" for k
    using length_cstr_le [of "input_name k"] length_cstr_le [of "output_name k"]
    by (simp add: route_json_def quoted_def key_width_def)
  have "length (routes_from i ks) \<le> sum_list (map key_width ks)" for i ks
  proof (induction ks arbitrary: i)
    case (Cons k ks)
    from Cons [of "Suc i"] Cons [of "Suc 0"] r [of k] show ?case by (auto simp: routes_from_Cons)
  qed (simp add: routes_from_def)
  from order_trans [OF this w, of 0] have "length (routes_from 0 ?ks) \<le> 110" .
  moreover have "active_json ?ks = ''{'' @ quoted ''active_routes'' @ '':{'' @ routes_from 0 ?ks @ ''}}''"
    by (simp add: active_json_def routes_from_def)
  ultimately show ?thesis by (simp add: quoted_def)
qed

lemma memsroute_get_ok:
  assumes "tib_inv s"
  shows "memsroute_get R c s = reply c RESP_OK (active_json (mems_router_active_routes (mems_switches s) (router s) 18)) s"
  using active_json_short [OF assms] by (simp add: memsroute_get_text)

interpretation memsroute_get: handler_contract memsroute_get
proof (rule handler_contractI)
  fix R c s
  assume c: "command_wf c" "tib_inv s"
  let ?t = "active_json (mems_router_active_routes (mems_switches s) (router s) 18)"
  have "c_strlen ?t \<le> 255"
    using active_json_short [OF c(2)] length_cstr_le [of ?t] unfolding c_strlen_def by linarith
  with c show "contract_ok c (memsroute_get R c s)"
    by (simp add: memsroute_get_ok contract_reply)
qed

interpretation memsroute_set: handler_contract memsroute_set
proof (rule handler_contractI)
  fix R c s
  assume c: "command_wf c" "tib_inv s"
  have steps: "contract_ok c (case run_steps ss s of (Some e, s) \<Rightarrow> reply c RESP_ERROR e s | (None, s) \<Rightarrow> reply c RESP_OK json_ok s)" for ss
  proof (cases "fst (run_steps ss s)")
    case None
    then show ?thesis
      using run_steps_inv [OF c(2), of ss] contract_reply [OF c(1) _ json_ok_short] by (cases "run_steps ss s") simp
  next
    case (Some e)
    then show ?thesis
      using run_steps_inv [OF c(2), of ss] contract_reply [OF c(1)] by (cases "run_steps ss s") simp
  qed
  show "contract_ok c (memsroute_set R c s)"
    using contract_reply [OF c] steps
    by (simp add: memsroute_set_def case_prod_unfold Let_def json_error_short split: option.split)
qed

interpretation mems_get: handler_contract mems_get
proof (rule handler_contractI)
  fix R c s
  assume c: "command_wf c" "tib_inv s"
  show "contract_ok c (mems_get R c s)"
    using contract_reply [OF c] contract_None [of c]
    by (simp add: mems_get_def case_prod_unfold Let_def reply_texts split: option.split)
qed

interpretation mems_set: handler_contract mems_set
proof (rule handler_contractI)
  fix R c s
  assume c: "command_wf c" "tib_inv s"
  have sw: "contract_ok c (if fst (set_switch p v s) \<noteq> 0 then reply c RESP_ERROR (json_error ''Invalid switch state'') (snd (set_switch p v s))
      else reply c RESP_OK json_ok (snd (set_switch p v s)))"
    if "mems_router_find_switch (mems_switches s) (router s) name = Some p" for p v name
    using contract_reply [OF c(1) set_switch_spec(1) [OF c(2) that]] by (simp add: reply_texts)
  show "contract_ok c (mems_set R c s)"
    using contract_reply [OF c] sw
    by (simp add: mems_set_def case_prod_unfold Let_def reply_texts split: option.split)
qed

lemma laser_transfer_inv:
  assumes "tib_inv s"
  shows "tib_inv (s\<lparr>history := snd (snd (maiman_read_u16 P d a (if b then wait_laser_boot (snd (enable_power P' (history s))) else snd (enable_power P' (history s)))))\<rparr>)"
    and "tib_inv (s\<lparr>history := snd (maiman_write_u16 P d a v (if b then wait_laser_boot (snd (enable_power P' (history s))) else snd (enable_power P' (history s))))\<rparr>)"
proof -
  obtain es where es: "snd (enable_power P' (history s)) = history s @ es" "list_all (\<lambda>e. \<not> is_pin_set e) es"
    using power_histories(1) by blast
  let ?h = "if b then wait_laser_boot (snd (enable_power P' (history s))) else snd (enable_power P' (history s))"
  have h: "?h = history s @ (es @ (if b then [K_sleep 1000] else []))" by (simp add: wait_laser_boot_def es)
  have "snd (maiman_write_u16 P d a v ?h) = history s @ (es @ (if b then [K_sleep 1000] else []) @ [Modbus_write (node_id d) a v])"
    unfolding h by (simp add: maiman_write_u16_def Let_def)
  then show "tib_inv (s\<lparr>history := snd (maiman_write_u16 P d a v ?h)\<rparr>)"
    using tib_inv_history [OF assms, of "es @ (if b then [K_sleep 1000] else []) @ [Modbus_write (node_id d) a v]"] es(2) by simp
  have "snd (snd (maiman_read_u16 P d a ?h)) = history s @ (es @ (if b then [K_sleep 1000] else []) @ [Modbus_read (node_id d) a])"
    unfolding h read_u16_history by simp
  then show "tib_inv (s\<lparr>history := snd (snd (maiman_read_u16 P d a ?h))\<rparr>)"
    using tib_inv_history [OF assms, of "es @ (if b then [K_sleep 1000] else []) @ [Modbus_read (node_id d) a]"] es(2) by simp
qed

interpretation laser_setting_get: handler_contract laser_setting_get
proof (rule handler_contractI)
  fix R c s
  assume c: "command_wf c" "tib_inv s"
  show "contract_ok c (laser_setting_get R c s)"
    unfolding laser_setting_get_def case_prod_unfold Let_def
    by (intro contract_cases c laser_transfer_inv(1) [OF c(2)]) (simp_all add: reply_texts)
qed

interpretation laser_setting_set: handler_contract laser_setting_set
proof (rule handler_contractI)
  fix R c s
  assume c: "command_wf c" "tib_inv s"
  show "contract_ok c (laser_setting_set R c s)"
    unfolding laser_setting_set_def case_prod_unfold Let_def
    by (intro contract_cases c laser_transfer_inv(2) [OF c(2)]) (simp_all add: reply_texts)
qed

interpretation atten_setting_get: handler_contract atten_setting_get
proof (rule handler_contractI)
  fix R c s
  assume c: "command_wf c" "tib_inv s"
  show "contract_ok c (atten_setting_get R c s)"
    unfolding atten_setting_get_def case_prod_unfold Let_def
    by (intro contract_cases c) (simp_all add: reply_texts)
qed

lemma set_from_payload_contract:
  assumes "command_wf c" and "tib_inv s" and "i < 6"
  shows "contract_ok c (set_from_payload R c i raw s)"
  unfolding set_from_payload_def case_prod_unfold Let_def
  by (intro contract_cases assms set_attenuator_inv [OF assms(2,3)]) (auto simp: reply_texts)

interpretation atten_setting_set: handler_contract atten_setting_set
proof (rule handler_contractI)
  fix R c s
  assume c: "command_wf c" "tib_inv s"
  show "contract_ok c (atten_setting_set R c s)"
    unfolding atten_setting_set_def case_prod_unfold Let_def
    by (intro contract_cases c set_from_payload_contract get_laser_channel_range)
       (simp add: reply_texts
        | (rule set_attenuator_inv [OF store_coeffs_inv [OF c(2)]], (rule get_laser_channel_range, assumption)+, assumption))+
qed

lemma power_history_inv:
  assumes "tib_inv s"
  shows "tib_inv (s\<lparr>history := snd (power_enabled P (history s))\<rparr>)"
    and "tib_inv (s\<lparr>history := snd (enable_power P (history s))\<rparr>)"
    and "tib_inv (s\<lparr>history := snd (disable_power P (history s))\<rparr>)"
    and "tib_inv (s\<lparr>history := history s\<rparr>)"
proof -
  show "tib_inv (s\<lparr>history := snd (power_enabled P (history s))\<rparr>)"
    using tib_inv_history [OF assms, of "[Power_get]"] by (simp add: power_enabled_history)
  show "tib_inv (s\<lparr>history := snd (enable_power P (history s))\<rparr>)"
    using power_histories(1) [of P "history s"] tib_inv_history [OF assms] by metis
  show "tib_inv (s\<lparr>history := snd (disable_power P (history s))\<rparr>)"
    using power_histories(2) [of P "history s"] tib_inv_history [OF assms] by metis
qed (simp add: assms)

lemma power_text_short: "c_strlen (power_text b) \<le> 255"
  by (simp add: power_text_def payload_text_short)

interpretation status_get: handler_contract status_get
  by (rule handler_contractI)
     (simp add: status_get_def case_prod_unfold Let_def contract_reply power_history_inv power_text_short)

interpretation power_get: handler_contract power_get
  by (rule handler_contractI)
     (simp add: power_get_def case_prod_unfold Let_def contract_reply power_history_inv power_text_short)

interpretation power_set: handler_contract power_set
proof (rule handler_contractI)
  fix R c s
  assume c: "command_wf c" "tib_inv s"
  show "contract_ok c (power_set R c s)"
    unfolding power_set_def case_prod_unfold Let_def
    by (intro contract_cases c) (simp_all add: reply_texts power_history_inv c)
qed

interpretation sleep_set: handler_contract sleep_set
proof (rule handler_contractI)
  fix R c s
  assume c: "command_wf c" "tib_inv s"
  show "contract_ok c (sleep_set R c s)"
    unfolding sleep_set_def case_prod_unfold Let_def
    by (intro contract_cases c) (simp_all add: reply_texts power_history_inv c)
qed

section \<open>The dispatcher\<close>

lemma find_entry_iff:
  assumes "distinct (map entry_key es)" and "\<forall>e \<in> set es. NUL \<notin> set (entry_key e)"
  shows "find_entry es key = Some e \<longleftrightarrow> e \<in> set es \<and> entry_key e = cstr key"
  using assms
proof (induction es)
  case (Cons a es)
  then have a: "cstr (entry_key a) = entry_key a" and n: "\<forall>x \<in> set es. entry_key a \<noteq> entry_key x"
    by (auto simp: cstr_id)
  show ?case
  proof (cases "entry_key a = cstr key")
    case True
    with n have "\<not> (e \<in> set es \<and> entry_key e = cstr key)" by metis
    with True a show ?thesis by (auto simp: c_strcmp_0_iff)
  next
    case False
    with Cons a show ?thesis by (auto simp: c_strcmp_0_iff)
  qed
qed simp

lemma dispatch_keys: "map entry_key dispatch_table =
    [''memsroute'', ''mems'', ''laser'', ''power'', ''atten'', ''status'', ''sleep'']"
  by (simp add: dispatch_table_def)

lemma find_dispatch_iff: "find_dispatch key = Some e \<longleftrightarrow> e \<in> set dispatch_table \<and> entry_key e = cstr key"
proof -
  have "distinct (map entry_key dispatch_table)" unfolding dispatch_keys by code_simp
  moreover have "list_all (\<lambda>k. NUL \<notin> set k) (map entry_key dispatch_table)" unfolding dispatch_keys by code_simp
  ultimately show ?thesis
    unfolding find_dispatch_def by (intro find_entry_iff) (auto simp: list_all_iff)
qed

lemma dispatch_cases:
  "dispatch_command R c s =
    (if cstr (cmd_key c) \<in> {''memsroute'', ''mems'', ''laser'', ''power'', ''atten'', ''status'', ''sleep''}
     then (if cmd_msg_type c = SET
           then if cstr (cmd_key c) = ''memsroute'' then memsroute_set R c s
                else if cstr (cmd_key c) = ''mems'' then mems_set R c s
                else if cstr (cmd_key c) = ''laser'' then laser_setting_set R c s
                else if cstr (cmd_key c) = ''power'' then power_set R c s
                else if cstr (cmd_key c) = ''atten'' then atten_setting_set R c s
                else if cstr (cmd_key c) = ''sleep'' then sleep_set R c s
                else Some (unsupported_response c, s)
           else if cstr (cmd_key c) = ''memsroute'' then memsroute_get R c s
                else if cstr (cmd_key c) = ''mems'' then mems_get R c s
                else if cstr (cmd_key c) = ''laser'' then laser_setting_get R c s
                else if cstr (cmd_key c) = ''power'' then power_get R c s
                else if cstr (cmd_key c) = ''atten'' then atten_setting_get R c s
                else if cstr (cmd_key c) = ''status'' then status_get R c s
                else Some (unsupported_response c, s))
     else Some (unknown_response c, s))"
proof (cases "find_dispatch (cmd_key c)")
  case None
  have "cstr (cmd_key c) \<notin> entry_key ` set dispatch_table"
  proof
    assume "cstr (cmd_key c) \<in> entry_key ` set dispatch_table"
    then obtain e where "e \<in> set dispatch_table" "entry_key e = cstr (cmd_key c)" by auto
    then have "find_dispatch (cmd_key c) = Some e" by (simp add: find_dispatch_iff)
    with None show False by simp
  qed
  with None show ?thesis by (simp add: dispatch_command_def dispatch_table_def)
next
  case (Some e)
  then have "e \<in> set dispatch_table" "entry_key e = cstr (cmd_key c)" by (simp_all add: find_dispatch_iff)
  with Some show ?thesis
    unfolding dispatch_table_def dispatch_command_def by (auto simp: eq_commute [of _ "cstr (cmd_key c)"])
qed

interpretation dispatch: handler_contract dispatch_command
proof (rule handler_contractI)
  fix R c s
  assume c: "command_wf c" "tib_inv s"
  have r: "contract_ok c (Some (unknown_response c, s))" "contract_ok c (Some (unsupported_response c, s))"
    using contract_reply [OF c, of _ RESP_ERROR]
    by (simp_all add: reply_def unknown_response_def unsupported_response_def json_error_short)
  have h: "contract_ok c (f R c s)" if "handler_contract f" for f
    using handler_contract.contract [OF that c(2,1)] by (simp add: contract_ok_def)
  show "contract_ok c (dispatch_command R c s)"
    unfolding dispatch_cases
    by (intro contract_if r h memsroute_get.handler_contract_axioms memsroute_set.handler_contract_axioms
        mems_get.handler_contract_axioms mems_set.handler_contract_axioms
        laser_setting_get.handler_contract_axioms laser_setting_set.handler_contract_axioms
        atten_setting_get.handler_contract_axioms atten_setting_set.handler_contract_axioms
        status_get.handler_contract_axioms power_get.handler_contract_axioms
        power_set.handler_contract_axioms sleep_set.handler_contract_axioms)
qed

end
