(* ===== verification/Command_Spec.thy ===== *)
theory Command_Spec
  imports Command_Contract
begin

text \<open>
  What the commands of \<open>app/src/command.c\<close> do: what the dispatcher can reach, the effect of a route
  command and the reply to a route query, and what the handlers of single switches, lasers, attenuators
  and the power line do when they are called.
\<close>

section \<open>What a command can touch\<close>

fun is_switch_or_power :: "io_event \<Rightarrow> bool" where
  "is_switch_or_power (Gpio_pin_set d p v) = True"
| "is_switch_or_power (K_sleep n) = True"
| "is_switch_or_power Power_get = True"
| "is_switch_or_power (Power_set v) = True"
| "is_switch_or_power _ = False"

text \<open>A step that keeps the attenuators and the router and adds only such events to the history.\<close>

definition only_switches :: "tib \<Rightarrow> tib \<Rightarrow> bool" where
  "only_switches s s' \<longleftrightarrow> attenuators s' = attenuators s \<and> router s' = router s \<and>
     (\<exists>es. history s' = history s @ es \<and> list_all is_switch_or_power es)"

lemma only_switches_refl [simp]: "only_switches s s"
  by (simp add: only_switches_def)

lemma only_switches_trans: "only_switches s s' \<Longrightarrow> only_switches s' s'' \<Longrightarrow> only_switches s s''"
  by (auto simp: only_switches_def)

lemma only_switches_history:
  "list_all is_switch_or_power es \<Longrightarrow> h = history s @ es \<Longrightarrow> only_switches s (s\<lparr>history := h\<rparr>)"
  by (simp add: only_switches_def)

lemma only_switches_set: "only_switches s (snd (set_switch p c s))"
  by (auto simp: only_switches_def set_switch_def mems_switch_set_state_def pulse_def)

lemma only_switches_run: "only_switches s (snd (run_steps stps s))"
proof (induction stps arbitrary: s)
  case (Cons stp stps)
  show ?case
    using only_switches_trans [OF only_switches_set Cons] only_switches_set
    by (auto simp: case_prod_unfold Let_def split: option.split)
qed simp

lemma power_events:
  "\<exists>es. snd (enable_power P h) = h @ es \<and> list_all is_switch_or_power es"
  "\<exists>es. snd (disable_power P h) = h @ es \<and> list_all is_switch_or_power es"
  by (simp_all add: enable_power_def disable_power_def case_prod_unfold power_enabled_history Let_def)

definition tame :: "tib \<Rightarrow> (OutMsg \<times> tib) option \<Rightarrow> bool" where
  "tame s r \<longleftrightarrow> (\<exists>m s'. r = Some (m, s') \<and> only_switches s s')"

lemma tame_reply: "only_switches s s' \<Longrightarrow> tame s (reply c t msg s')"
  by (simp add: tame_def reply_def)

lemma tame_if: "(b \<Longrightarrow> tame s x) \<Longrightarrow> (\<not> b \<Longrightarrow> tame s y) \<Longrightarrow> tame s (if b then x else y)"
  by simp

lemma tame_memsroute: "tame s (memsroute_get R c s)" "tame s (memsroute_set R c s)"
proof -
  show "tame s (memsroute_get R c s)" by (simp add: memsroute_get_text tame_reply)
  have "tame s (case run_steps ss s of (Some e, s) \<Rightarrow> reply c RESP_ERROR e s | (None, s) \<Rightarrow> reply c RESP_OK json_ok s)" for ss
    using only_switches_run [of s ss] by (cases "run_steps ss s") (auto simp: tame_reply split: option.split)
  then show "tame s (memsroute_set R c s)"
    by (simp add: memsroute_set_def case_prod_unfold Let_def tame_reply split: option.split)
qed

lemma tame_power:
  "tame s (status_get R c s)" "tame s (power_get R c s)" "tame s (power_set R c s)" "tame s (sleep_set R c s)"
proof -
  have e: "only_switches s (s\<lparr>history := snd (power_enabled P (history s))\<rparr>)"
    "only_switches s (s\<lparr>history := snd (enable_power P (history s))\<rparr>)"
    "only_switches s (s\<lparr>history := snd (disable_power P (history s))\<rparr>)" for P
    using power_events [of P "history s"] power_enabled_history [of P "history s"]
    by (auto simp: only_switches_def)
  have [simp]: "s\<lparr>history := history s\<rparr> = s" by simp
  show "tame s (status_get R c s)" "tame s (power_get R c s)"
    unfolding status_get_def power_get_def case_prod_unfold Let_def by (intro tame_reply e)+
  show "tame s (power_set R c s)"
    unfolding power_set_def case_prod_unfold Let_def by (auto intro!: tame_if tame_reply e)
  show "tame s (sleep_set R c s)"
    unfolding sleep_set_def case_prod_unfold Let_def by (auto intro!: tame_if tame_reply e)
qed

lemma parse_key_pair_coo: "parse_key_pair = coo_json_parse_key_pair"
  by (intro ext) (simp add: parse_key_pair_def coo_json_parse_key_pair_def)

lemma no_slash_unparsed: "slash \<notin> set (cstr key) \<Longrightarrow> fst (parse_key_pair key bn mn bs ms) = -1"
  by (simp add: parse_key_pair_def c_strchr_def)

lemma bare_keys_refused:
  assumes "slash \<notin> set (cstr (cmd_key c))"
  shows "mems_get R c s = reply c RESP_ERROR (json_error ''Failed to parse mems switch name'') s"
    and "mems_set R c s = reply c RESP_ERROR (json_error ''Failed to parse mems switch name'') s"
    and "laser_setting_get R c s = reply c RESP_ERROR (json_error ''Failed to parse laser/setting'') s"
    and "laser_setting_set R c s = reply c RESP_ERROR (json_error ''Failed to parse laser/setting'') s"
    and "atten_setting_get R c s = reply c RESP_ERROR (json_error ''Failed to parse atten/setting'') s"
    and "atten_setting_set R c s = reply c RESP_ERROR (json_error ''Failed to parse laser/setting'') s"
  by (simp_all add: mems_get_def mems_set_def laser_setting_get_def laser_setting_set_def atten_setting_get_def
      atten_setting_set_def case_prod_unfold Let_def no_slash_unparsed [OF assms])

text \<open>The handlers' own texts are the standard replies of \<open>json_utils.h\<close>, but for the capital letter of one.\<close>

lemma standard_replies:
  "json_error ''Unknown request'' = COO_JSON_ERR_UNKNOWN" "json_error ''Unsupported operation'' = COO_JSON_ERR_UNSUPPORTED"
  "json_error ''Invalid or unrecognized command'' = COO_JSON_ERR_INVALID" "json_ok = COO_JSON_OK"
  "json_error ''busy'' \<noteq> COO_JSON_ERR_BUSY"
  by code_simp+

text \<open>A command with the given key and type and an empty payload.\<close>

definition sample_command :: "string \<Rightarrow> MsgType \<Rightarrow> Command" where
  "sample_command key t =
     \<lparr>cmd_msg_type = t, cmd_key = key @ replicate (48 - length key) NUL, cmd_session_id = replicate 48 NUL,
      cmd_response_topic = ''a/b'' @ replicate 61 NUL, cmd_payload_len = 0, cmd_payload = replicate 256 NUL,
      cmd_correlation_data = replicate 16 0, cmd_corr_len = 0\<rparr>"

lemma sample_command_wf: "length key \<le> 48 \<Longrightarrow> command_wf (sample_command key t)"
  by (simp add: command_wf_def sample_command_def tib_defs)

lemma booted_inv_nil: "tib_inv (booted [])"
  by (rule booted_inv) code_simp

lemma dispatch_tame: "tame s (dispatch_command R c s)"
proof -
  have u: "tame s (Some (unknown_response c, s))" "tame s (Some (unsupported_response c, s))"
    by (simp_all add: tame_def)
  have b: "slash \<notin> set (cstr (cmd_key c))" if "cstr (cmd_key c) \<in> {''mems'', ''laser'', ''atten''}"
    using that by auto
  show ?thesis
    unfolding dispatch_cases
    by (intro tame_if u tame_memsroute tame_power) (simp_all add: b bare_keys_refused tame_reply)
qed

lemma dispatch_returns: "\<exists>m s'. dispatch_command R c s = Some (m, s')"
  using dispatch_tame [of s R c] by (auto simp: tame_def)

text \<open>
  The dispatcher compares whole keys, and the keys of its table have no slash; so whatever the
  command, it returns a reply, and the lasers and the attenuators are out of its reach: no Modbus
  transfer and no DAC write is ever made, only switches are pulsed and the power line read or written.
\<close>

theorem dispatch_reaches_only_switches:
  "\<exists>m s' es. dispatch_command R c s = Some (m, s') \<and> attenuators s' = attenuators s \<and> router s' = router s \<and>
     history s' = history s @ es \<and> list_all is_switch_or_power es"
  using dispatch_tame [of s R c] by (simp add: tame_def only_switches_def)

text \<open>
  A key with a slash, the form every setting of a laser, an attenuator or a single switch needs, is
  answered with "Unknown request" and changes nothing, although the handlers behind those names exist.
\<close>

theorem dispatch_rejects_settings:
  assumes "slash \<in> set (cstr (cmd_key c))"
  shows "dispatch_command R c s = Some (unknown_response c, s)"
proof -
  have "cstr (cmd_key c) \<noteq> k" if "slash \<notin> set k" for k using assms that by blast
  then show ?thesis unfolding dispatch_cases by simp
qed

theorem dispatch_rejects_settings_witness:
  "\<forall>R s. dispatch_command R (sample_command ''laser1270j/CURRENT'' GET) s =
     Some (unknown_response (sample_command ''laser1270j/CURRENT'' GET), s)"
proof (intro allI)
  fix R s
  have "slash \<in> set (cstr (cmd_key (sample_command ''laser1270j/CURRENT'' GET)))" by code_simp
  then show "dispatch_command R (sample_command ''laser1270j/CURRENT'' GET) s =
     Some (unknown_response (sample_command ''laser1270j/CURRENT'' GET), s)"
    by (rule dispatch_rejects_settings)
qed

text \<open>
  C13: the dispatcher keeps the invariant of the application, and its reply answers the command: every
  array has its size, the text is terminated and shorter than its array, the topic is the response topic
  of the command when that fits and the default otherwise, and the correlation data is echoed.
\<close>

theorem dispatch_keeps_contract:
  assumes "tib_inv s" and "command_wf c"
  shows "\<exists>m s'. dispatch_command R c s = Some (m, s') \<and> tib_inv s' \<and> answers c m"
  using dispatch_returns [of R c s] dispatch.contract [OF assms] by blast

theorem dispatch_keeps_contract_witness:
  "\<forall>R. \<exists>m s'. dispatch_command R (sample_command ''status'' GET) (booted []) = Some (m, s') \<and> tib_inv s' \<and>
     answers (sample_command ''status'' GET) m"
  by (intro allI dispatch_keeps_contract booted_inv_nil sample_command_wf) simp

section \<open>Routes\<close>

lemma run_steps_tib:
  assumes "tib_inv s" and "\<forall>stp \<in> set stps. step_ok stp"
  shows "fst (run_steps stps s) = None \<and>
    (router s, mems_switches (snd (run_steps stps s))) = tib_bank.apply_steps (router s, mems_switches s) stps"
  using assms
proof (induction stps arbitrary: s)
  case (Cons stp stps)
  have names: "map sw_name (mems_switches s) = tib_names" and r: "router s = booted_router"
    using Cons.prems(1) by (simp_all add: tib_inv_def switches_inv_def)
  from Cons.prems(2) obtain p where p: "mems_router_find_switch (mems_switches s) (router s) (switch_name stp) = Some p"
    and legal: "legal_state (step_state stp)"
    by (auto simp: step_ok_def r tib_find_switch [OF names])
  let ?s = "snd (set_switch p (step_state stp) s)"
  note sw = set_switch_spec [OF Cons.prems(1) p, of "step_state stp"]
  have run: "run_steps (stp # stps) s = run_steps stps ?s"
    using p legal sw(2) by (simp add: case_prod_unfold Let_def)
  have "tib_bank.apply_step (router s, mems_switches s) stp = (router ?s, mems_switches ?s)"
    using p legal sw(3,4)
    by (simp add: tib_bank.apply_step_def bank_set_def set_state_switch)
  with Cons.IH [OF sw(1)] Cons.prems(2) show ?case unfolding run by (simp add: sw(4))
qed simp

lemma booted_router_wf: "length b = 8 \<Longrightarrow> router_wf b booted_router"
proof -
  have "length booted_switches = 8" by code_simp
  then show "length b = 8 \<Longrightarrow> router_wf b booted_router"
    using booted_facts(1) by (simp add: router_wf_def)
qed

lemma get_route_in:
  "mems_router_get_route r inp out = Some rt \<Longrightarrow> rt \<in> set (router_routes r) \<and>
     same_name (input_name (route_key rt)) inp \<and> same_name (output_name (route_key rt)) out"
  by (auto simp: mems_router_get_route_def get_route_from_find find_Some_iff in_set_conv_nth)


text \<open>A JSON library that accepts nothing but one route.\<close>

definition route_json_lib :: "string \<Rightarrow> string \<Rightarrow> json_lib" where
  "route_json_lib inp out =
     \<lparr>json_msg_type = (\<lambda>_. (-22, [], [])), json_route_id = (\<lambda>_. (3, inp, out)),
      json_value_string = (\<lambda>_. (-22, [])), json_value_uint16 = (\<lambda>_. (-22, 0)),
      json_value_float = (\<lambda>_. (-22, Num 0)), json_value_bool = (\<lambda>_. (-22, False)),
      json_coeffs = (\<lambda>_. (-22, \<lambda>_. Num 0, 0, \<lambda>_. Num 0, 0))\<rparr>"

definition sample_runtime :: "json_lib \<Rightarrow> runtime" where
  "sample_runtime J = \<lparr>board = quiet_platform, json = J, stack_bytes = (\<lambda>_ _. NUL)\<rparr>"


lemma memsroute_answer:
  assumes "tib_inv s"
  shows "\<exists>m. memsroute_get R c s = Some (m, s) \<and> out_msg_type m = RESP_OK \<and>
     cstr (out_payload m) =
       ''{'' @ quoted ''active_routes'' @ '':{'' @
       commas (map (\<lambda>rt. quoted (cstr (input_name (route_key rt))) @ '':'' @ quoted (cstr (output_name (route_key rt))))
                 (filter (route_active (mems_switches s) (router s)) (router_routes (router s)))) @ ''}}''"
proof -
  let ?ks = "mems_router_active_routes (mems_switches s) (router s) 18"
  have r: "router s = booted_router" using assms by (simp add: tib_inv_def)
  have "length (router_routes booted_router) = 16" by code_simp
  then have ks: "?ks = map route_key (filter (route_active (mems_switches s) (router s)) (router_routes (router s)))"
    using length_filter_le [of "route_active (mems_switches s) (router s)" "router_routes (router s)"]
    by (simp add: r mems_router_active_routes_def active_routes_from_filter steps_match_active)
  let ?m = "msg_builder (Some c) RESP_OK (active_json ?ks)"
  have "NUL \<notin> set (''{'' @ quoted ''active_routes'' @ '':{'' @ routes_from 0 ?ks @ ''}}'')"
    using NUL_notin_routes_from [of 0 ?ks] unfolding set_append by (simp add: quoted_def NUL_def)
  moreover have "active_json ?ks = ''{'' @ quoted ''active_routes'' @ '':{'' @ routes_from 0 ?ks @ ''}}''"
    by (simp add: active_json_def routes_from_def)
  ultimately have nul: "cstr (active_json ?ks) = active_json ?ks" by (metis cstr_id)
  have short: "c_strlen (active_json ?ks) \<le> 255"
    using active_json_short [OF assms] by (simp add: c_strlen_def nul)
  have m: "cstr (out_payload ?m) = active_json ?ks" "out_msg_type ?m = RESP_OK"
    using msg_builder_payload(1,4) [OF short, of "Some c" RESP_OK] nul by simp_all
  have g: "memsroute_get R c s = Some (?m, s)" by (simp add: memsroute_get_ok [OF assms] reply_def)
  have rj: "map route_json ?ks = map (\<lambda>rt. quoted (cstr (input_name (route_key rt))) @ '':'' @ quoted (cstr (output_name (route_key rt))))
                 (filter (route_active (mems_switches s) (router s)) (router_routes (router s)))"
    unfolding ks map_map o_def route_json_def by (rule refl)
  note aj = active_json_def [of ?ks, unfolded rj]
  show ?thesis by (intro exI [of _ ?m] conjI g m(2) trans [OF m(1) aj])
qed

text \<open>
  The reply to a route query never overflows its buffer: in every state of the box it is OK and its
  payload is the JSON object of exactly the active routes, each input with its output, in the order of
  their definition; asking changes nothing.
\<close>

theorem memsroute_get_lists_active:
  assumes "tib_inv s"
  shows "\<exists>m. memsroute_get R c s = Some (m, s) \<and> out_msg_type m = RESP_OK \<and>
     cstr (out_payload m) =
       ''{'' @ quoted ''active_routes'' @ '':{'' @
       commas (map (\<lambda>rt. quoted (cstr (input_name (route_key rt))) @ '':'' @ quoted (cstr (output_name (route_key rt))))
                 (filter (route_active (mems_switches s) (router s)) (router_routes (router s)))) @ ''}}''"
  by (rule memsroute_answer [OF assms])

theorem memsroute_get_lists_active_witness:
  "\<forall>R. \<exists>m. memsroute_get R (sample_command ''memsroute'' GET) (booted []) = Some (m, booted []) \<and> out_msg_type m = RESP_OK"
  using memsroute_get_lists_active [OF booted_inv_nil] by blast

section \<open>Keys with a name and a setting\<close>

definition setting_key :: "string \<Rightarrow> string \<Rightarrow> string \<Rightarrow> bool" where
  "setting_key key n st \<longleftrightarrow> key_of key n st \<and> 0 < length n \<and> length n < 15 \<and> 0 < length st \<and> length st < 15"

lemma parse_setting_key:
  assumes "setting_key key n st"
  shows "parse_key_pair key bn 15 bs 15 = (0, mem_write bn (n @ [NUL]), mem_write bs (st @ [NUL]))"
    and "cstr (mem_write bn (n @ [NUL])) = n" and "cstr (mem_write bs (st @ [NUL])) = st"
proof -
  have k: "key_of key n st" "n \<noteq> []" "st \<noteq> []" "length n < 15" "length st < 15"
    using assms by (auto simp: setting_key_def)
  show "parse_key_pair key bn 15 bs 15 = (0, mem_write bn (n @ [NUL]), mem_write bs (st @ [NUL]))"
    unfolding parse_key_pair_coo using parse_key_of [OF k(1), of bn 15 bs 15] k(2-5) by simp
  show "cstr (mem_write bn (n @ [NUL])) = n" "cstr (mem_write bs (st @ [NUL])) = st"
    using key_of_NUL [OF k(1)] by (simp_all add: cstr_mem_write)
qed

lemma parse_success:
  assumes "fst (parse_key_pair key bn 15 bs 15) = 0"
  obtains n st where "setting_key key n st"
proof -
  obtain bn' bs' where p: "parse_key_pair key bn 15 bs 15 = (0, bn', bs')"
    using assms by (cases "parse_key_pair key bn 15 bs 15") auto
  have "\<exists>bn'' bs''. coo_json_parse_key_pair key bn 15 bs 15 = (0, bn'', bs'') \<and> cstr bn'' = cstr bn' \<and> cstr bs'' = cstr bs'"
    using p unfolding parse_key_pair_coo by blast
  then have "setting_key key (cstr bn') (cstr bs')"
    unfolding setting_key_def by (subst (asm) parse_key_pair_success) simp
  then show thesis by (rule that)
qed

lemma long_setting_refused:
  assumes "key_of key n st" and "15 \<le> length st"
  shows "fst (parse_key_pair key bn 15 bs 15) \<noteq> 0"
  unfolding parse_key_pair_coo using parse_key_of [OF assms(1), of bn 15 bs 15] assms(2) by simp

section \<open>Single switches\<close>

lemma tib_find_cstr: "tib_find name = tib_find (cstr name)"
  by (simp add: tib_find_def same_name_def)

lemma tib_find_inv:
  "tib_inv s \<Longrightarrow> mems_router_find_switch (mems_switches s) (router s) name = tib_find name"
  by (simp add: tib_inv_def switches_inv_def tib_find_switch)


lemma setting_key_sample:
  "setting_key (''mems/yj_mm_sm'' @ replicate 35 NUL) ''mems'' ''yj_mm_sm''"
proof -
  have "cstr (''mems/yj_mm_sm'' @ replicate 35 NUL) = ''mems'' @ slash # ''yj_mm_sm'' @ []" by code_simp
  then show ?thesis unfolding setting_key_def key_of_def by fastforce
qed


text \<open>
  The setting buffer holds fourteen characters, but two of the eight switches have names of sixteen:
  they cannot be set or queried one by one, whatever the payload.
\<close>

theorem long_switch_names_unreachable:
  assumes "key_of (cmd_key c) n name" and "name = ''yj_forward_retro'' \<or> name = ''hk_forward_retro''"
  shows "mems_get R c s = reply c RESP_ERROR (json_error ''Failed to parse mems switch name'') s \<and>
         mems_set R c s = reply c RESP_ERROR (json_error ''Failed to parse mems switch name'') s \<and>
         tib_find name \<noteq> None"
proof -
  have "15 \<le> length name" using assms(2) by auto
  from long_setting_refused [OF assms(1) this] assms(2) show ?thesis
    by (auto simp: mems_get_def mems_set_def case_prod_unfold)
qed

theorem long_switch_names_unreachable_witness:
  "\<forall>R s. mems_get R (sample_command ''mems/yj_forward_retro'' GET) s =
     reply (sample_command ''mems/yj_forward_retro'' GET) RESP_ERROR (json_error ''Failed to parse mems switch name'') s"
proof (intro allI)
  fix R s
  have "cstr (cmd_key (sample_command ''mems/yj_forward_retro'' GET)) = ''mems'' @ slash # ''yj_forward_retro'' @ []"
    by code_simp
  then have "key_of (cmd_key (sample_command ''mems/yj_forward_retro'' GET)) ''mems'' ''yj_forward_retro''"
    unfolding key_of_def by fastforce
  then show "mems_get R (sample_command ''mems/yj_forward_retro'' GET) s =
     reply (sample_command ''mems/yj_forward_retro'' GET) RESP_ERROR (json_error ''Failed to parse mems switch name'') s"
    using long_switch_names_unreachable by blast
qed

section \<open>Laser names\<close>

lemma short_prefix: "length w < 7 \<Longrightarrow> take 7 x = w \<longleftrightarrow> x = w"
  by (cases "length x \<le> 7") auto

lemma laser_name_test:
  assumes "map c_tolower (cstr w) = w" and "length w < 7"
  shows "c_strncasecmp name w 7 = 0 \<longleftrightarrow> map c_tolower (cstr name) = w"
proof -
  have "length (cstr w) = length w" using assms(1) by (metis length_map)
  then have "take 7 (cstr w) = cstr w" using assms(2) by simp
  then show ?thesis
    using short_prefix [OF assms(2), of "map c_tolower (cstr name)"] assms(1)
    by (simp add: c_strncasecmp_0_iff take_map)
qed

text \<open>
  Laser names are recognised whatever the case of their letters. Names 1028y and 1270j share a
  channel, 1430hk has none, and every channel found indexes the six attenuators.
\<close>

theorem get_laser_channel_spec:
  "get_laser_channel name =
     (case map_of [(''1028y'', 1), (''1270j'', 1), (''1430yj'', 2), (''1510h'', 4), (''2330k'', 5)]
             (map c_tolower (cstr name)) of
        Some ch \<Rightarrow> ch | None \<Rightarrow> LASER_UNKNOWN) \<and>
   get_laser_channel ''1430hk'' = LASER_UNKNOWN \<and>
   (get_laser_channel name = LASER_UNKNOWN \<or> get_laser_channel name < NUM_ATTENUATORS)"
proof -
  have w: "map c_tolower (cstr ''1028y'') = ''1028y''" "map c_tolower (cstr ''1270j'') = ''1270j''"
    "map c_tolower (cstr ''1430yj'') = ''1430yj''" "map c_tolower (cstr ''1510h'') = ''1510h''"
    "map c_tolower (cstr ''2330k'') = ''2330k''" by code_simp+
  have "get_laser_channel ''1430hk'' = LASER_UNKNOWN" by code_simp
  moreover have "get_laser_channel name =
     (case map_of [(''1028y'', 1), (''1270j'', 1), (''1430yj'', 2), (''1510h'', 4), (''2330k'', 5)]
             (map c_tolower (cstr name)) of
        Some ch \<Rightarrow> ch | None \<Rightarrow> LASER_UNKNOWN)"
    unfolding get_laser_channel_def
    by (simp only: laser_name_test [OF w(1)] laser_name_test [OF w(2)] laser_name_test [OF w(3)]
        laser_name_test [OF w(4)] laser_name_test [OF w(5)] list.size) (simp add: tib_defs)
  moreover have "get_laser_channel name = LASER_UNKNOWN \<or> get_laser_channel name < NUM_ATTENUATORS"
    using get_laser_channel_range [of name] by (auto simp: NUM_ATTENUATORS_def)
  ultimately show ?thesis by blast
qed

section \<open>Lasers\<close>

definition reachable_registers :: "u16 list" where
  "reachable_registers = [REG_CURRENT, REG_TEC_VOLTAGE, REG_SERIAL_NUMBER, REG_FREQUENCY, REG_DURATION]"

lemma short_registers:
  assumes "maiman_get_register_address name (Some 0) = (True, Some a)" and "length (cstr name) < 15"
  shows "a \<in> set reachable_registers"
proof -
  have "find_register register_table name = Some a"
    using assms(1) by (auto simp: maiman_get_register_address_def split: option.splits)
  then obtain n where n: "(n, a) \<in> set register_table" "map c_tolower (cstr name) = map c_tolower (cstr n)"
    using find_register_iff [OF register_names(1)] by blast
  have "length (cstr n) < 15" using arg_cong [OF n(2), of length] assms(2) by simp
  moreover have "list_all (\<lambda>(n, a). length (cstr n) < 15 \<longrightarrow> a \<in> set reachable_registers) register_table" by code_simp
  ultimately show ?thesis using n(1) by (auto simp: list_all_iff)
qed

text \<open>What happens on the board before a transfer: the power line is read, and the box waits if it was off.\<close>

definition powered :: "platform \<Rightarrow> io \<Rightarrow> io" where
  "powered P h =
     (if power_get_rc P (h @ [Power_get]) = 1 then h @ [Power_get]
      else h @ [Power_get, Power_set 1, K_sleep 1000])"

lemma powered_eq:
  "(if fst (enable_power P h) then wait_laser_boot (snd (enable_power P h)) else snd (enable_power P h)) = powered P h"
  by (simp add: enable_power_def power_enabled_def wait_laser_boot_def powered_def Let_def)

lemma laser_node_range: "get_laser_channel n \<noteq> LASER_UNKNOWN \<Longrightarrow> (of_nat (get_laser_channel n) :: u8) \<in> {1, 2, 4, 5}"
  by (simp add: get_laser_channel_def tib_defs split: if_splits)

lemma parse_success_length:
  assumes "parse_key_pair key bn 15 bs 15 = (0, bn', bs')"
  shows "length (cstr bs') < 15"
proof -
  obtain n st where k: "setting_key key n st" using parse_success [of key bn bs] assms by auto
  then show ?thesis using parse_setting_key(1,3) [OF k] assms by (auto simp: setting_key_def)
qed

lemma msg_builder_type [simp]: "out_msg_type (msg_builder c t msg) = t"
  by (simp add: msg_builder_def Let_def split: option.split)

lemma sint16: "sint (v :: u16) = (if uint v < 32768 then uint v else uint v - 65536)"
proof -
  have "sint v = (uint v + 32768) mod 65536 - 32768"
    by (simp add: sint_uint signed_take_bit_eq_take_bit_shift take_bit_eq_mod)
  also have "(uint v + 32768) mod 65536 = (if uint v < 32768 then uint v + 32768 else uint v - 32768)"
    using uint16_bound [of v] mod_pos_pos_trivial [of "uint v + 32768" 65536]
      mod_pos_pos_trivial [of "uint v - 32768" 65536] mod_add_self2 [of "uint v - 32768" 65536]
    by (auto simp: add.commute)
  finally show ?thesis by simp
qed

lemma register_cases:
  "(case maiman_get_register_address st (Some 0) of (True, Some a) \<Rightarrow> f a | _ \<Rightarrow> g) =
   (case find_register register_table st of Some a \<Rightarrow> f a | None \<Rightarrow> g)"
  by (simp add: maiman_get_register_address_def split: option.split)

lemma find_register_reachable:
  "find_register register_table st = Some a \<Longrightarrow> length (cstr st) < 15 \<Longrightarrow> a \<in> set reachable_registers"
  using short_registers [of st a] by (simp add: maiman_get_register_address_def)

text \<open>
  Writing a laser setting touches the board in one way only: after the power line has been read, and
  switched on and waited for when it was off, one register is written, with the parsed value, on one of
  the four nodes the names lead to. Of the sixteen registers only the five with names short enough for
  the buffer can be meant. The reply is OK exactly when the transfer was made and did not fail.
\<close>

theorem laser_setting_set_order:
  "\<exists>m s'. laser_setting_set R c s = Some (m, s') \<and>
     (s' = s \<and> out_msg_type m = RESP_ERROR \<or>
      (\<exists>node a. node \<in> {1, 2, 4, 5} \<and> a \<in> set reachable_registers \<and>
         history s' = powered (board R) (history s) @
           [Modbus_write node a (snd (json_value_uint16 (json R) (take (cmd_payload_len c) (cmd_payload c))))] \<and>
         s' = s\<lparr>history := history s'\<rparr> \<and>
         (out_msg_type m = RESP_OK \<longleftrightarrow> 0 \<le> modbus_write_rc (board R) (history s')) \<and>
         (out_msg_type m = RESP_ERROR \<longleftrightarrow> modbus_write_rc (board R) (history s') < 0)))"
proof -
  obtain rc bn st where p: "parse_key_pair (cmd_key c) (uninit R ''laser_name'' 16) 15 (uninit R ''setting'' 16) 15 = (rc, bn, st)"
    by (rule prod_cases3)
  obtain jrc v where j: "json_value_uint16 (json R) (take (cmd_payload_len c) (cmd_payload c)) = (jrc, v)" by fastforce
  let ?n = "get_laser_channel (drop 5 bn)"
  show ?thesis
  proof (cases "rc \<noteq> 0 \<or> jrc < 0 \<or> ?n = LASER_UNKNOWN \<or> find_register register_table st = None")
    case True
    then have "\<exists>e. laser_setting_set R c s = reply c RESP_ERROR (json_error e) s"
      unfolding laser_setting_set_def p j prod.case Let_def register_cases by auto
    then obtain e where "laser_setting_set R c s = Some (msg_builder (Some c) RESP_ERROR (json_error e), s)"
      by (auto simp: reply_def)
    then show ?thesis by (intro exI conjI) (assumption, simp)
  next
    case False
    then obtain a where a: "find_register register_table st = Some a" and rc: "rc = 0" by auto
    let ?h = "powered (board R) (history s) @ [Modbus_write (of_nat ?n) a v]"
    have reach: "a \<in> set reachable_registers"
      using find_register_reachable [OF a] parse_success_length p rc by blast
    have node: "(of_nat ?n :: u8) \<in> {1, 2, 4, 5}" using laser_node_range False by blast
    have "laser_setting_set R c s =
        (if modbus_write_rc (board R) ?h < 0 then reply c RESP_ERROR (json_error ''set_driver_setting failed'') (s\<lparr>history := ?h\<rparr>)
         else reply c RESP_OK json_ok (s\<lparr>history := ?h\<rparr>))"
      using False a unfolding laser_setting_set_def p j prod.case Let_def register_cases case_prod_unfold powered_eq
      by (simp add: maiman_get_register_address_def maiman_write_u16_def Let_def)
    then show ?thesis
      using reach node
      by (intro exI [of _ "msg_builder (Some c) (if modbus_write_rc (board R) ?h < 0 then RESP_ERROR else RESP_OK)
              (if modbus_write_rc (board R) ?h < 0 then json_error ''set_driver_setting failed'' else json_ok)"]
            exI [of _ "s\<lparr>history := ?h\<rparr>"] conjI disjI2 exI [of _ "of_nat ?n :: u8"] exI [of _ a])
         (auto simp: reply_def j)
  qed
qed

text \<open>
  Reading a laser setting makes the same checks and one transfer. The value is printed with
  \<open>%hd\<close>, so a register of 32768 or more appears as a negative number.
\<close>

theorem laser_setting_get_order:
  "\<exists>m s'. laser_setting_get R c s = Some (m, s') \<and>
     (s' = s \<and> out_msg_type m = RESP_ERROR \<or>
      (\<exists>node a. node \<in> {1, 2, 4, 5} \<and> a \<in> set reachable_registers \<and>
         history s' = powered (board R) (history s) @ [Modbus_read node a] \<and> s' = s\<lparr>history := history s'\<rparr> \<and>
         (if fst (modbus_read_rc (board R) (history s')) < 0 then out_msg_type m = RESP_ERROR
          else let v = uint (snd (modbus_read_rc (board R) (history s')));
                   printed = (if v < 32768 then v else v - 65536)
               in \<exists>setting. m = msg_builder (Some c) RESP_OK
                    (payload_text (''{'' @ quoted setting @ '':'' @ show_int printed @ ''}'')))))"
proof -
  obtain rc bn st where p: "parse_key_pair (cmd_key c) (uninit R ''laser_name'' 16) 15 (uninit R ''setting'' 16) 15 = (rc, bn, st)"
    by (rule prod_cases3)
  let ?n = "get_laser_channel (drop 5 bn)"
  show ?thesis
  proof (cases "rc \<noteq> 0 \<or> ?n = LASER_UNKNOWN \<or> find_register register_table st = None")
    case True
    then have "\<exists>e. laser_setting_get R c s = reply c RESP_ERROR (json_error e) s"
      unfolding laser_setting_get_def p prod.case Let_def register_cases by auto
    then obtain e where "laser_setting_get R c s = Some (msg_builder (Some c) RESP_ERROR (json_error e), s)"
      by (auto simp: reply_def)
    then show ?thesis by (intro exI conjI) (assumption, simp)
  next
    case False
    then obtain a where a: "find_register register_table st = Some a" and rc: "rc = 0" by auto
    let ?h = "powered (board R) (history s) @ [Modbus_read (of_nat ?n) a]"
    let ?v = "snd (modbus_read_rc (board R) ?h)"
    let ?t = "payload_text (''{'' @ quoted (cstr st) @ '':'' @ show_int (sint ?v) @ ''}'')"
    have reach: "a \<in> set reachable_registers"
      using find_register_reachable [OF a] parse_success_length p rc by blast
    have node: "(of_nat ?n :: u8) \<in> {1, 2, 4, 5}" using laser_node_range False by blast
    have run: "laser_setting_get R c s =
        (if fst (modbus_read_rc (board R) ?h) < 0 then reply c RESP_ERROR (json_error ''get_driver_setting failed'') (s\<lparr>history := ?h\<rparr>)
         else reply c RESP_OK ?t (s\<lparr>history := ?h\<rparr>))"
      using False a unfolding laser_setting_get_def p prod.case Let_def register_cases case_prod_unfold powered_eq
      by (simp add: maiman_get_register_address_def maiman_read_u16_def case_prod_unfold Let_def)
    show ?thesis
    proof (cases "fst (modbus_read_rc (board R) ?h) < 0")
      case True
      with run reach node show ?thesis
        by (intro exI [of _ "msg_builder (Some c) RESP_ERROR (json_error ''get_driver_setting failed'')"]
            exI [of _ "s\<lparr>history := ?h\<rparr>"] conjI disjI2 exI [of _ "of_nat ?n :: u8"] exI [of _ a])
           (auto simp: reply_def)
    next
      case no_err: False
      with run reach node show ?thesis
        by (intro exI [of _ "msg_builder (Some c) RESP_OK ?t"]
            exI [of _ "s\<lparr>history := ?h\<rparr>"] conjI disjI2 exI [of _ "of_nat ?n :: u8"] exI [of _ a])
           (auto simp: reply_def Let_def sint16)
    qed
  qed
qed

section \<open>Attenuators\<close>

lemma get_laser_channel_cstr: "get_laser_channel name = get_laser_channel (cstr name)"
  by (simp add: get_laser_channel_def c_strncasecmp_0_iff)

lemma setting_key_atten:
  assumes "setting_key key n st" and "5 \<le> length n"
  shows "get_laser_channel (drop 5 (mem_write bn (n @ [NUL]))) = get_laser_channel (drop 5 n)"
proof -
  have "NUL \<notin> set n" using assms(1) key_of_NUL by (auto simp: setting_key_def)
  then have nul: "NUL \<notin> set (drop 5 n)" by (meson in_set_dropD)
  then have "cstr (drop 5 (mem_write bn (n @ [NUL]))) = cstr (drop 5 n)"
    using assms(2) by (simp add: mem_write_def cstr_append_NUL cstr_id)
  then show ?thesis by (metis get_laser_channel_cstr)
qed

lemma set_attenuator_json [simp]: "set_attenuator (R\<lparr>json := J\<rparr>) i x raw s = set_attenuator R i x raw s"
  by (simp add: set_attenuator_def)

lemma setting_is:
  assumes "setting_key key n st"
  shows "c_strcasecmp (mem_write bs (st @ [NUL])) ''coeff'' = 0 \<longleftrightarrow> map c_tolower st = ''coeff''"
    and "c_strcasecmp (mem_write bs (st @ [NUL])) ''value'' = 0 \<longleftrightarrow> map c_tolower st = ''value''"
proof -
  have "map c_tolower (cstr ''coeff'') = ''coeff''" "map c_tolower (cstr ''value'') = ''value''" by code_simp+
  then show "c_strcasecmp (mem_write bs (st @ [NUL])) ''coeff'' = 0 \<longleftrightarrow> map c_tolower st = ''coeff''"
    "c_strcasecmp (mem_write bs (st @ [NUL])) ''value'' = 0 \<longleftrightarrow> map c_tolower st = ''value''"
    using parse_setting_key(3) [OF assms] by (simp_all add: c_strcasecmp_0_iff)
qed

lemma atten_get_inverted:
  assumes "setting_key (cmd_key c) n st" and "5 \<le> length n" and "get_laser_channel (drop 5 n) = i" and "i \<noteq> LASER_UNKNOWN"
  shows "atten_setting_get R c s =
      (let a = attenuators s ! i
       in if map c_tolower st = ''coeff''
          then reply c RESP_OK (payload_text (''{'' @ quoted ''voltage'' @ '':'' @ show_f4 (snd (attenuator_get a True)) @ '','' @
                 quoted ''db'' @ '':'' @ show_f4 (snd (attenuator_get a False)) @ ''}'')) s
          else reply c RESP_OK (payload_text (''{'' @ quoted ''db2volt'' @ '':'' @ show_f4_list (coeff_db_to_volt a) @ '','' @
                 quoted ''volt2db'' @ '':'' @ show_f4_list (coeff_volt_to_db a) @ ''}'')) s)"
proof -
  note k = parse_setting_key(1) [OF assms(1)] setting_key_atten [OF assms(1,2)] setting_is [OF assms(1)]
  show ?thesis
    using assms(3,4) unfolding atten_setting_get_def k(1) prod.case Let_def k(2)
    by (simp add: k(3,4) case_prod_unfold)
qed

lemma atten_set_inverted:
  assumes "setting_key (cmd_key c) n st" and "5 \<le> length n" and "get_laser_channel (drop 5 n) = i" and "i \<noteq> LASER_UNKNOWN"
  shows "atten_setting_set R c s =
      (if map c_tolower st = ''coeff'' then set_from_payload R c i True s
       else atten_setting_set (R\<lparr>json := (json R)\<lparr>json_value_float := f\<rparr>\<rparr>) c s)"
proof -
  note k = parse_setting_key(1) [OF assms(1)] setting_key_atten [OF assms(1,2)] setting_is [OF assms(1)]
  show ?thesis
    using assms(3,4) unfolding atten_setting_set_def k(1) prod.case Let_def k(2)
    by (simp add: k(3,4) uninit_def case_prod_unfold)
qed

text \<open>
  The settings of an attenuator are compared the wrong way round. A query of \<open>coeff\<close> is answered with
  the voltage and the attenuation, a query of anything else (\<open>value\<close> and \<open>valuedb\<close> too) with the
  coefficients; a change of \<open>coeff\<close> sets the raw voltage from the payload's number, and a change of
  anything else never looks at that number. "Invalid setting" is never the answer.
\<close>

theorem atten_settings_inverted:
  assumes "setting_key (cmd_key c) n st" and "5 \<le> length n" and "get_laser_channel (drop 5 n) = i" and "i \<noteq> LASER_UNKNOWN"
  shows "atten_setting_get R c s =
      (let a = attenuators s ! i
       in if map c_tolower st = ''coeff''
          then reply c RESP_OK (payload_text (''{'' @ quoted ''voltage'' @ '':'' @ show_f4 (snd (attenuator_get a True)) @ '','' @
                 quoted ''db'' @ '':'' @ show_f4 (snd (attenuator_get a False)) @ ''}'')) s
          else reply c RESP_OK (payload_text (''{'' @ quoted ''db2volt'' @ '':'' @ show_f4_list (coeff_db_to_volt a) @ '','' @
                 quoted ''volt2db'' @ '':'' @ show_f4_list (coeff_volt_to_db a) @ ''}'')) s) \<and>
    atten_setting_set R c s =
      (if map c_tolower st = ''coeff'' then set_from_payload R c i True s
       else atten_setting_set (R\<lparr>json := (json R)\<lparr>json_value_float := f\<rparr>\<rparr>) c s)"
  by (intro conjI atten_get_inverted [OF assms] atten_set_inverted [OF assms])

theorem atten_settings_inverted_witness:
  "\<forall>R f s. atten_setting_set R (sample_command ''atten1270j/value'' SET) s =
     atten_setting_set (R\<lparr>json := (json R)\<lparr>json_value_float := f\<rparr>\<rparr>) (sample_command ''atten1270j/value'' SET) s"
proof (intro allI)
  fix R f s
  let ?c = "sample_command ''atten1270j/value'' SET"
  have "cstr (cmd_key ?c) = ''atten1270j'' @ slash # ''value'' @ []" by code_simp
  then have k: "setting_key (cmd_key ?c) ''atten1270j'' ''value''"
    unfolding setting_key_def key_of_def by fastforce
  have l: "get_laser_channel (drop 5 ''atten1270j'') = 1" "map c_tolower ''value'' \<noteq> ''coeff''" "(1::nat) \<noteq> LASER_UNKNOWN"
    by code_simp+
  have "5 \<le> length ''atten1270j''" by simp
  from atten_settings_inverted [OF k this l(1,3), of R s f, THEN conjunct2, unfolded if_not_P [OF l(2)]]
  show "atten_setting_set R ?c s = atten_setting_set (R\<lparr>json := (json R)\<lparr>json_value_float := f\<rparr>\<rparr>) ?c s" .
qed

section \<open>Power\<close>

text \<open>
  The power command reads the line and writes it only when it differs from what is asked for, so
  asking twice is asking once; but its reply says \<open>RESP_ERROR\<close> with the text of a success. A sleep command
  with a true value is a power command with a false one, and with a false value does nothing.
\<close>

theorem power_set_spec:
  assumes "json_value_bool (json R) (take (cmd_payload_len c) (cmd_payload c)) = (rc, v)" and "0 \<le> rc"
  shows "power_set R c s =
      Some (msg_builder (Some c) RESP_ERROR json_ok,
            s\<lparr>history := history s @ Power_get #
               (if (power_get_rc (board R) (history s @ [Power_get]) = 1) = v then []
                else [Power_set (if v then 1 else 0)])\<rparr>) \<and>
    sleep_set R c s =
      (if v then power_set (R\<lparr>json := (json R)\<lparr>json_value_bool := \<lambda>_. (rc, False)\<rparr>\<rparr>) c s
       else Some (msg_builder (Some c) RESP_ERROR json_ok, s))"
  using assms
  by (simp add: power_set_def sleep_set_def enable_power_def disable_power_def power_enabled_def reply_def
      Let_def case_prod_unfold)

theorem power_set_spec_witness:
  "power_set (sample_runtime ((route_json_lib [] [])\<lparr>json_value_bool := \<lambda>_. (1, True)\<rparr>)) (sample_command ''power'' SET) (booted []) =
     Some (msg_builder (Some (sample_command ''power'' SET)) RESP_ERROR json_ok,
           (booted [])\<lparr>history := history (booted []) @ [Power_get, Power_set 1]\<rparr>)"
proof -
  let ?R = "sample_runtime ((route_json_lib [] [])\<lparr>json_value_bool := \<lambda>_. (1, True)\<rparr>)"
  have "json_value_bool (json ?R) t = (1, True)" for t by (simp add: sample_runtime_def)
  from power_set_spec [of ?R, OF this, where s = "booted []" and c = "sample_command ''power'' SET"] show ?thesis
    by (simp add: sample_runtime_def quiet_platform_def)
qed

end
