(* ===== verification/Msgq.thy ===== *)
theory Msgq
  imports TIB_Prelude
begin

text \<open>
  The message queues of the kernel (\<open>k_msgq\<close>), which are not part of the sources: a record of the three
  operations the sources call, and the documented behaviour the properties rely on as a named hypothesis.
  A queue is a value of an arbitrary type; \<open>contents\<close> tells which messages it holds, oldest first.
\<close>

record ('q, 'm) msgq =
  q_put :: "'q \<Rightarrow> 'm \<Rightarrow> int \<times> 'q"      \<comment> \<open>\<open>k_msgq_put(q, &m, K_NO_WAIT)\<close>: result code and queue\<close>
  q_get :: "'q \<Rightarrow> ('m \<times> 'q) option"    \<comment> \<open>\<open>k_msgq_get(q, &m, K_NO_WAIT)\<close>: \<open>None\<close> for a non-zero code\<close>
  q_purge :: "'q \<Rightarrow> 'q"

definition msgq_laws :: "('q, 'm) msgq \<Rightarrow> ('q \<Rightarrow> 'm list) \<Rightarrow> nat \<Rightarrow> bool" where
  "msgq_laws Q contents depth \<longleftrightarrow>
     (\<forall>q m. length (contents q) < depth \<longrightarrow>
        fst (q_put Q q m) = 0 \<and> contents (snd (q_put Q q m)) = contents q @ [m]) \<and>
     (\<forall>q m. \<not> length (contents q) < depth \<longrightarrow>
        fst (q_put Q q m) \<noteq> 0 \<and> contents (snd (q_put Q q m)) = contents q) \<and>
     (\<forall>q. contents q = [] \<longrightarrow> q_get Q q = None) \<and>
     (\<forall>q m ms. contents q = m # ms \<longrightarrow> (\<exists>q'. q_get Q q = Some (m, q') \<and> contents q' = ms)) \<and>
     (\<forall>q. contents (q_purge Q q) = [])"

lemma msgq_put_room:
  assumes "msgq_laws Q contents depth" and "length (contents q) < depth"
  shows "fst (q_put Q q m) = 0" and "contents (snd (q_put Q q m)) = contents q @ [m]"
  using assms by (simp_all add: msgq_laws_def)

lemma msgq_put_full:
  assumes "msgq_laws Q contents depth" and "\<not> length (contents q) < depth"
  shows "fst (q_put Q q m) \<noteq> 0" and "contents (snd (q_put Q q m)) = contents q"
  using assms by (simp_all add: msgq_laws_def)

lemma msgq_put_iff:
  assumes "msgq_laws Q contents depth"
  shows "fst (q_put Q q m) = 0 \<longleftrightarrow> length (contents q) < depth"
    and "contents (snd (q_put Q q m)) = (if length (contents q) < depth then contents q @ [m] else contents q)"
  using msgq_put_room [OF assms, of q m] msgq_put_full [OF assms, of q m] by auto

lemma msgq_get_empty: "msgq_laws Q contents depth \<Longrightarrow> contents q = [] \<Longrightarrow> q_get Q q = None"
  by (simp add: msgq_laws_def)

lemma msgq_get_Cons:
  assumes "msgq_laws Q contents depth" and "contents q = m # ms"
  obtains q' where "q_get Q q = Some (m, q')" and "contents q' = ms"
  using assms unfolding msgq_laws_def by blast

lemma msgq_get_Some:
  assumes "msgq_laws Q contents depth" and "q_get Q q = Some (m, q')"
  shows "contents q = m # contents q'"
proof (cases "contents q")
  case Nil
  with msgq_get_empty [OF assms(1)] assms(2) show ?thesis by simp
next
  case (Cons a as)
  from msgq_get_Cons [OF assms(1) this] assms(2) Cons show ?thesis by auto
qed

lemma msgq_purged: "msgq_laws Q contents depth \<Longrightarrow> contents (q_purge Q q) = []"
  by (simp add: msgq_laws_def)

text \<open>The hypothesis can hold: a list of bounded length.\<close>

definition list_msgq :: "nat \<Rightarrow> ('m list, 'm) msgq" where
  "list_msgq depth =
     \<lparr>q_put = (\<lambda>q m. if length q < depth then (0, q @ [m]) else (- 35, q)),
      q_get = (\<lambda>q. case q of [] \<Rightarrow> None | m # ms \<Rightarrow> Some (m, ms)), q_purge = (\<lambda>_. [])\<rparr>"

lemma list_msgq_laws: "msgq_laws (list_msgq depth) (\<lambda>q. q) depth"
  by (simp add: msgq_laws_def list_msgq_def)

end
