(* ===== verification/Photodiode.thy ===== *)
theory Photodiode
  imports Command_Contract Msgq
begin

text \<open>
  \<open>app/src/photodiode.c\<close> and \<open>.h\<close>: the thread that samples two photodiodes through the ADC and queues a
  message with both. The ADC, the clock and the queue belong to Zephyr: what they answer in one round
  is a record, and the queue is a parameter.
\<close>

definition PUBLISH_INTERVAL_MS :: int where [tib_defs]: "PUBLISH_INTERVAL_MS = 20"
definition INT16_MIN :: "16 word" where "INT16_MIN = 0x8000"

text \<open>
  The answers of one round. A read leaves a value in the sample whatever its code; the time stamps are
  signed 64-bit numbers.
\<close>

record adc_round =
  yj_setup_rc :: int
  yj_read :: "int \<times> 16 word"
  hk_setup_rc :: int
  hk_read :: "int \<times> 16 word"
  ts_sec :: "64 word"
  uptime_start :: "64 word"
  uptime_end :: "64 word"

definition sample_channel :: "int \<Rightarrow> int \<times> 16 word \<Rightarrow> 16 word" where
  "sample_channel setup_rc reading = (if setup_rc \<noteq> 0 then INT16_MIN else snd reading)"

definition photodiode_topic :: string where
  "photodiode_topic = ''dt/hsfib-tib/photodiode''"

definition sample_text :: "16 word \<Rightarrow> 16 word \<Rightarrow> 64 word \<Rightarrow> string" where
  "sample_text yj hk sec =
     ''{'' @ quoted ''yj'' @ '':'' @ show_int (sint yj) @ '', '' @ quoted ''hk'' @ '':'' @ show_int (sint hk) @
     '', '' @ quoted ''time'' @ '':'' @ show_int (sint sec) @ ''}''"

definition photodiode_message :: "16 word \<Rightarrow> 16 word \<Rightarrow> 64 word \<Rightarrow> OutMsg" where
  "photodiode_message yj hk sec =
     (let msg = zero_OutMsg\<lparr>out_qos := 0\<rparr>;
          (topic, _) = c_snprintf (out_topic msg) MAX_TOPIC_LEN photodiode_topic;
          (payload, len) = c_snprintf (out_payload msg) MAX_PAYLOAD_LEN (sample_text yj hk sec)
      in msg\<lparr>out_topic := topic, out_payload := payload, out_payload_len := len\<rparr>)"

text \<open>The loop that makes room by purging the queue; it need not end for a queue that never takes anything.\<close>

partial_function (option) enqueue_purging :: "('q, 'm) msgq \<Rightarrow> 'q \<Rightarrow> 'm \<Rightarrow> 'q option" where
  "enqueue_purging Q q m =
     (let (rc, q) = q_put Q q m in if rc \<noteq> 0 then enqueue_purging Q (q_purge Q q) m else Some q)"

text \<open>One round of the endless loop: the queue, and the milliseconds slept when the round was in time.\<close>

definition photodiode_round :: "('q, OutMsg) msgq \<Rightarrow> adc_round \<Rightarrow> 'q \<Rightarrow> ('q \<times> int option) option" where
  "photodiode_round Q a q =
     (let yj_sample = sample_channel (yj_setup_rc a) (yj_read a);
          hk_sample = sample_channel (hk_setup_rc a) (hk_read a);
          msg = photodiode_message yj_sample hk_sample (ts_sec a)
      in case enqueue_purging Q q msg of
           None \<Rightarrow> None
         | Some q \<Rightarrow>
             (let elapsed = sint (uptime_end a - uptime_start a); remaining = PUBLISH_INTERVAL_MS - elapsed
              in if remaining > 0 then Some (q, Some remaining) else Some (q, None)))"

text \<open>Before the loop, the thread sleeps 10 ms and then 10 ms more until the ADC is ready; the result is the time slept.\<close>

partial_function (option) wait_adc_ready :: "(nat \<Rightarrow> bool) \<Rightarrow> nat \<Rightarrow> nat option" where
  "wait_adc_ready ready t = (if \<not> ready t then wait_adc_ready ready (t + 10) else Some t)"

section \<open>A sample's message\<close>

lemma digits_u16: "length (show_int (sint (w :: 16 word))) \<le> 6"
proof -
  have "- (10 ^ Suc 4) < sint w \<and> sint w < 10 ^ Suc 4"
    using sint_ge [of w] sint_lt [of w] by simp
  then show ?thesis using length_show_int [of 4 "sint w"] by simp
qed

lemma digits_i64: "length (show_int (sint (w :: 64 word))) \<le> 20"
proof -
  have "- (10 ^ Suc 18) < sint w \<and> sint w < 10 ^ Suc 18"
    using sint_ge [of w] sint_lt [of w] by simp
  then show ?thesis using length_show_int [of 18 "sint w"] by simp
qed

lemma sample_text_bounds: "length (sample_text yj hk sec) \<le> 65" "NUL \<notin> set (sample_text yj hk sec)"
  using digits_u16 [of yj] digits_u16 [of hk] digits_i64 [of sec]
  by (simp_all add: sample_text_def quoted_def) (simp add: NUL_def)

lemma photodiode_message_facts:
  "cstr (out_payload (photodiode_message yj hk sec)) = sample_text yj hk sec"
  "cstr (out_topic (photodiode_message yj hk sec)) = photodiode_topic"
  "out_msg_wf (photodiode_message yj hk sec)"
  "out_qos (photodiode_message yj hk sec) = 0"
proof -
  have l: "length photodiode_topic = 23" "NUL \<notin> set photodiode_topic"
    by (simp_all add: photodiode_topic_def NUL_def)
  have m: "out_payload (photodiode_message yj hk sec) = mem_write (replicate 256 NUL) (sample_text yj hk sec @ [NUL])"
    "out_topic (photodiode_message yj hk sec) = mem_write (replicate 64 NUL) (photodiode_topic @ [NUL])"
    "out_payload_len (photodiode_message yj hk sec) = length (sample_text yj hk sec)"
    "out_correlation_data (photodiode_message yj hk sec) = replicate 16 0" "out_corr_len (photodiode_message yj hk sec) = 0"
    using sample_text_bounds(1) [of yj hk sec] l
    by (simp_all add: photodiode_message_def c_snprintf_def zero_OutMsg_def tib_defs)
  show p: "cstr (out_payload (photodiode_message yj hk sec)) = sample_text yj hk sec"
    "cstr (out_topic (photodiode_message yj hk sec)) = photodiode_topic"
    using sample_text_bounds(2) l(2) by (simp_all add: m cstr_mem_write)
  have "length (out_payload (photodiode_message yj hk sec)) = 256" "length (out_topic (photodiode_message yj hk sec)) = 64"
    using sample_text_bounds(1) [of yj hk sec] l(1) by (simp_all add: m)
  then show "out_msg_wf (photodiode_message yj hk sec)"
    using sample_text_bounds(1) [of yj hk sec] l(1) p m(3-5)
    by (simp add: out_msg_wf_def c_strlen_def tib_defs)
  show "out_qos (photodiode_message yj hk sec) = 0"
    by (simp add: photodiode_message_def zero_OutMsg_def case_prod_unfold Let_def)
qed

lemma enqueue_purging_ends:
  assumes laws: "msgq_laws Q contents depth" and room: "0 < depth"
  shows "\<exists>q'. enqueue_purging Q q m = Some q' \<and>
     contents q' = (if length (contents q) < depth then contents q @ [m] else [m])"
proof (cases "length (contents q) < depth")
  case True
  then show ?thesis
    using msgq_put_room [OF laws True, of m] by (subst enqueue_purging.simps) (simp add: case_prod_unfold Let_def)
next
  case False
  let ?q = "q_purge Q (snd (q_put Q q m))"
  have e: "contents ?q = []" by (rule msgq_purged [OF laws])
  have "length (contents ?q) < depth" using room by (simp add: e)
  from msgq_put_room [OF laws this, of m] e
  have "enqueue_purging Q ?q m = Some (snd (q_put Q ?q m)) \<and> contents (snd (q_put Q ?q m)) = [m]"
    by (subst enqueue_purging.simps) (simp add: case_prod_unfold Let_def)
  moreover have "enqueue_purging Q q m = enqueue_purging Q ?q m"
    using msgq_put_full(1) [OF laws False, of m] by (subst enqueue_purging.simps) (simp add: case_prod_unfold Let_def)
  ultimately show ?thesis using False by simp
qed

text \<open>
  C28: a round always ends and its sample is always queued, last: after the samples already there, or alone
  when the queue was full and has been purged. The message fits its arrays for all values of the samples
  and of the clock, its text is never cut, and a channel that could not be set up reads as -32768.
\<close>

theorem photodiode_round_queues_sample:
  assumes "msgq_laws Q contents depth" and "0 < depth"
  shows "\<exists>q' slept m. photodiode_round Q a q = Some (q', slept) \<and>
     contents q' = (if length (contents q) < depth then contents q @ [m] else [m]) \<and>
     out_msg_wf m \<and> cstr (out_topic m) = photodiode_topic \<and>
     cstr (out_payload m) =
       sample_text (if yj_setup_rc a = 0 then snd (yj_read a) else INT16_MIN)
                   (if hk_setup_rc a = 0 then snd (hk_read a) else INT16_MIN) (ts_sec a) \<and>
     (\<forall>ms. slept = Some ms \<longrightarrow> 0 < ms \<and> ms = 20 - sint (uptime_end a - uptime_start a))"
proof -
  let ?m = "photodiode_message (sample_channel (yj_setup_rc a) (yj_read a)) (sample_channel (hk_setup_rc a) (hk_read a)) (ts_sec a)"
  obtain q' where q': "enqueue_purging Q q ?m = Some q'"
    "contents q' = (if length (contents q) < depth then contents q @ [?m] else [?m])"
    using enqueue_purging_ends [OF assms] by blast
  let ?rem = "20 - sint (uptime_end a - uptime_start a)"
  have "photodiode_round Q a q = Some (q', if ?rem > 0 then Some ?rem else None)"
    using q'(1) by (simp add: photodiode_round_def Let_def PUBLISH_INTERVAL_MS_def)
  then show ?thesis
    using q'(2) photodiode_message_facts
    by (intro exI [of _ q'] exI [of _ "if ?rem > 0 then Some ?rem else None"] exI [of _ ?m])
       (auto simp: sample_channel_def)
qed

theorem photodiode_round_queues_sample_witness:
  "\<exists>q' slept m. photodiode_round (list_msgq 4)
      \<lparr>yj_setup_rc = 0, yj_read = (0, 12), hk_setup_rc = - 5, hk_read = (0, 7), ts_sec = 1700000000,
       uptime_start = 100, uptime_end = 103\<rparr> [] = Some (q', slept) \<and> q' = [m] \<and>
     cstr (out_payload m) = sample_text 12 INT16_MIN 1700000000"
  using photodiode_round_queues_sample [OF list_msgq_laws [of 4], of
      "\<lparr>yj_setup_rc = 0, yj_read = (0, 12), hk_setup_rc = - 5, hk_read = (0, 7), ts_sec = 1700000000,
       uptime_start = 100, uptime_end = 103\<rparr>" "[]"]
  by fastforce

end
