(* ===== verification/Mqtt_Client.thy ===== *)
theory Mqtt_Client
  imports TIB_Prelude
begin

text \<open>
  \<open>lib/coo_commons/mqtt_client.c\<close>: the wrapper around Zephyr's MQTT library. The library, the socket
  poll and the resolver are parameters: what a call returns, and which events the library delivers to the
  event handler while it runs, is an arbitrary function of the calls made so far. A result \<open>None\<close> is an
  access outside an array; a loop that does not end is \<open>None\<close> too.
\<close>

definition CONFIG_COO_MQTT_BROKER_HOSTNAME :: string where
  "CONFIG_COO_MQTT_BROKER_HOSTNAME = ''jebcontrol.caltech.edu''"
definition CONFIG_COO_MQTT_BROKER_PORT :: string where "CONFIG_COO_MQTT_BROKER_PORT = ''1883''"
definition CONFIG_COO_MQTT_PAYLOAD_SIZE :: nat where [tib_defs]: "CONFIG_COO_MQTT_PAYLOAD_SIZE = 256"
definition MAX_SUBSCRIPTIONS :: nat where [tib_defs]: "MAX_SUBSCRIPTIONS = 4"
definition MSECS_WAIT_RECONNECT :: nat where [tib_defs]: "MSECS_WAIT_RECONNECT = 5000"
definition MSECS_NET_POLL_TIMEOUT :: int where [tib_defs]: "MSECS_NET_POLL_TIMEOUT = 30000"
definition CLIENT_ID_SIZE :: nat where [tib_defs]: "CLIENT_ID_SIZE = 50"

section \<open>Data\<close>

text \<open>
  What a callback reads of a publish: the memory from the start of the topic on (the topic is read as
  a C string), the payload, the response topic (\<open>None\<close> is a null pointer) and the correlation data.
\<close>

record mqtt_message =
  topic_utf8 :: string
  payload_data :: string
  response_utf8 :: "string option"
  correlation :: "u8 list"

datatype mqtt_evt_type =
    MQTT_EVT_CONNACK | MQTT_EVT_DISCONNECT | MQTT_EVT_PUBLISH | MQTT_EVT_PUBACK | MQTT_EVT_PUBREC
  | MQTT_EVT_PUBREL | MQTT_EVT_PUBCOMP | MQTT_EVT_SUBACK | MQTT_EVT_PINGRESP | MQTT_EVT_OTHER

text \<open>\<open>evt_message_id\<close> is the message id in the member of the union \<open>param\<close> that belongs to the type.\<close>

record mqtt_evt =
  evt_type :: mqtt_evt_type
  evt_result :: int
  evt_message_id :: u16
  evt_qos :: u8
  evt_message :: mqtt_message

record mqtt_topic =
  tp_utf8 :: string
  tp_size :: nat
  tp_qos :: u8

datatype poll_flag = ZSOCK_POLLIN | ZSOCK_POLLERR | ZSOCK_POLLHUP

record mqtt_param =
  par_qos :: u8
  par_topic :: string
  par_topic_size :: nat
  par_payload :: string
  par_payload_len :: nat
  par_correlation :: "u8 list"
  par_correlation_len :: nat
  par_message_id :: u16

text \<open>
  The calls into Zephyr that the main thread makes; the last two are made by \<open>main\<close> itself, on the same
  thread.
\<close>

datatype sys_call =
    Mqtt_connect | Mqtt_input | Mqtt_live | Mqtt_abort | Mqtt_disconnect
  | Mqtt_subscribe "mqtt_topic list" u16
  | Mqtt_qos1_ack u16 | Mqtt_qos2_receive u16 | Mqtt_qos2_release u16 | Mqtt_qos2_complete u16
  | Mqtt_read_payload nat
  | Zsock_poll int int                 \<comment> \<open>descriptor and timeout in milliseconds\<close>
  | K_msleep nat
  | Mqtt_publish mqtt_param
  | Wdt_feed

datatype sa_family = AF_UNSPEC | AF_INET

record sockaddr_in =
  sin_family :: sa_family
  sin_addr :: u32
  sin_port :: u16

datatype mqtt_transport = MQTT_TRANSPORT_NON_SECURE | MQTT_TRANSPORT_SECURE

text \<open>The members of \<open>struct mqtt_client\<close> the wrapper sets.\<close>

record mqtt_client =
  cl_broker :: sockaddr_in
  cl_client_id :: string
  cl_client_id_size :: nat
  cl_password :: "string option"
  cl_user_name :: "string option"
  cl_version_5 :: bool
  cl_rx_buf_size :: nat
  cl_tx_buf_size :: nat
  cl_transport :: mqtt_transport

text \<open>
  The static variables of the file, the client, and the state of the application the user's callback works
  on; \<open>calls\<close> is what has been asked of Zephyr. The array of subscriptions with its counter is the list of
  its used entries.
\<close>

record 's mqtt_state =
  broker :: sockaddr_in
  pfd_fd :: int
  pfd_events :: "poll_flag list"
  pfd_revents :: "poll_flag list"
  nfds :: nat
  mqtt_connected :: bool
  client_id :: string
  user_mqtt_cb :: "(mqtt_message \<Rightarrow> 's \<Rightarrow> 's) option"
  subscriptions :: "mqtt_topic list"
  client :: mqtt_client
  user_state :: 's
  calls :: "sys_call list"

text \<open>
  The stack: result codes, the events delivered during a call, the bytes a read leaves in the buffer, the
  descriptor of the client, and the flags a poll sets (\<open>None\<close>: it leaves them as they were).
\<close>

record mqtt_lib =
  lib_connect :: "sys_call list \<Rightarrow> int \<times> mqtt_evt list"
  lib_input :: "sys_call list \<Rightarrow> int \<times> mqtt_evt list"
  lib_live :: "sys_call list \<Rightarrow> int \<times> mqtt_evt list"
  lib_abort :: "sys_call list \<Rightarrow> int \<times> mqtt_evt list"
  lib_disconnect :: "sys_call list \<Rightarrow> int \<times> mqtt_evt list"
  lib_publish :: "sys_call list \<Rightarrow> int \<times> mqtt_evt list"
  lib_subscribe :: "sys_call list \<Rightarrow> int"
  lib_read_payload :: "sys_call list \<Rightarrow> int \<times> string"
  lib_keepalive :: "sys_call list \<Rightarrow> int"
  lib_sock :: "sys_call list \<Rightarrow> int"
  lib_poll :: "sys_call list \<Rightarrow> int \<times> poll_flag list option"

definition log_call :: "sys_call \<Rightarrow> 's mqtt_state \<Rightarrow> 's mqtt_state" where
  "log_call c s = s\<lparr>calls := calls s @ [c]\<rparr>"

section \<open>Configuration\<close>

definition coo_mqtt_set_message_callback ::
  "(mqtt_message \<Rightarrow> 's \<Rightarrow> 's) option \<Rightarrow> 's mqtt_state \<Rightarrow> 's mqtt_state" where
  "coo_mqtt_set_message_callback cb s = s\<lparr>user_mqtt_cb := cb\<rparr>"

definition coo_mqtt_add_subscription :: "string \<Rightarrow> u8 \<Rightarrow> 's mqtt_state \<Rightarrow> int \<times> 's mqtt_state" where
  "coo_mqtt_add_subscription topic_str qos s =
     (if length (subscriptions s) \<ge> MAX_SUBSCRIPTIONS then (- ENOMEM, s)
      else (0, s\<lparr>subscriptions := subscriptions s @
                   [\<lparr>tp_utf8 = topic_str, tp_size = c_strlen topic_str, tp_qos = qos\<rparr>]\<rparr>))"

definition coo_mqtt_is_connected :: "'s mqtt_state \<Rightarrow> bool" where
  "coo_mqtt_is_connected s = mqtt_connected s"

section \<open>Socket descriptors\<close>

definition prepare_fds :: "mqtt_lib \<Rightarrow> 's mqtt_state \<Rightarrow> 's mqtt_state" where
  "prepare_fds L s =
     (let s = (if cl_transport (client s) = MQTT_TRANSPORT_NON_SECURE
               then s\<lparr>pfd_fd := lib_sock L (calls s)\<rparr> else s)
      in s\<lparr>pfd_events := [ZSOCK_POLLIN], nfds := 1\<rparr>)"

definition clear_fds :: "'s mqtt_state \<Rightarrow> 's mqtt_state" where
  "clear_fds s = s\<lparr>nfds := 0\<rparr>"

section \<open>Events\<close>

definition on_mqtt_connect :: "'s mqtt_state \<Rightarrow> 's mqtt_state" where
  "on_mqtt_connect s = s\<lparr>mqtt_connected := True\<rparr>"

definition on_mqtt_disconnect :: "'s mqtt_state \<Rightarrow> 's mqtt_state" where
  "on_mqtt_disconnect s = clear_fds (s\<lparr>mqtt_connected := False\<rparr>)"

text \<open>The buffer has one byte more than is asked for; a library that returned more would write past it.\<close>

definition on_mqtt_publish :: "mqtt_lib \<Rightarrow> mqtt_evt \<Rightarrow> 's mqtt_state \<Rightarrow> 's mqtt_state option" where
  "on_mqtt_publish L evt s =
     (let payload = replicate (CONFIG_COO_MQTT_PAYLOAD_SIZE + 1) NUL;
          s = log_call (Mqtt_read_payload CONFIG_COO_MQTT_PAYLOAD_SIZE) s;
          (rc, bytes) = lib_read_payload L (calls s)
      in if length bytes > length payload then None
         else let payload = mem_write payload bytes
              in if rc < 0 then Some s
                 else if nat rc \<ge> length payload then None
                 else let payload = payload[nat rc := NUL];
                          publish_param = (evt_message evt)\<lparr>payload_data := take (nat rc) payload\<rparr>
                      in case user_mqtt_cb s of
                           None \<Rightarrow> Some s
                         | Some cb \<Rightarrow> Some (s\<lparr>user_state := cb publish_param (user_state s)\<rparr>))"

definition MQTT_QOS_1_AT_LEAST_ONCE :: u8 where "MQTT_QOS_1_AT_LEAST_ONCE = 1"
definition MQTT_QOS_2_EXACTLY_ONCE :: u8 where "MQTT_QOS_2_EXACTLY_ONCE = 2"

definition mqtt_event_handler :: "mqtt_lib \<Rightarrow> mqtt_evt \<Rightarrow> 's mqtt_state \<Rightarrow> 's mqtt_state option" where
  "mqtt_event_handler L evt s =
     (case evt_type evt of
        MQTT_EVT_CONNACK \<Rightarrow> (if evt_result evt \<noteq> 0 then Some s else Some (on_mqtt_connect s))
      | MQTT_EVT_DISCONNECT \<Rightarrow> Some (on_mqtt_disconnect s)
      | MQTT_EVT_PINGRESP \<Rightarrow> Some s
      | MQTT_EVT_PUBACK \<Rightarrow> Some s
      | MQTT_EVT_PUBREC \<Rightarrow>
          (if evt_result evt \<noteq> 0 then Some s else Some (log_call (Mqtt_qos2_release (evt_message_id evt)) s))
      | MQTT_EVT_PUBREL \<Rightarrow>
          (if evt_result evt \<noteq> 0 then Some s else Some (log_call (Mqtt_qos2_complete (evt_message_id evt)) s))
      | MQTT_EVT_PUBCOMP \<Rightarrow> Some s
      | MQTT_EVT_SUBACK \<Rightarrow> Some s
      | MQTT_EVT_PUBLISH \<Rightarrow>
          (let s = (if evt_qos evt = MQTT_QOS_1_AT_LEAST_ONCE then log_call (Mqtt_qos1_ack (evt_message_id evt)) s
                    else if evt_qos evt = MQTT_QOS_2_EXACTLY_ONCE then log_call (Mqtt_qos2_receive (evt_message_id evt)) s
                    else s)
           in on_mqtt_publish L evt s)
      | MQTT_EVT_OTHER \<Rightarrow> Some s)"

text \<open>The events of one call of the library, one after the other.\<close>

fun deliver :: "mqtt_lib \<Rightarrow> mqtt_evt list \<Rightarrow> 's mqtt_state \<Rightarrow> 's mqtt_state option" where
  "deliver L [] s = Some s"
| "deliver L (e # es) s = Option.bind (mqtt_event_handler L e s) (deliver L es)"

definition lib_call ::
  "mqtt_lib \<Rightarrow> (sys_call list \<Rightarrow> int \<times> mqtt_evt list) \<Rightarrow> sys_call \<Rightarrow> 's mqtt_state \<Rightarrow> (int \<times> 's mqtt_state) option" where
  "lib_call L f c s =
     (let s = log_call c s; (rc, evts) = f (calls s) in map_option (Pair rc) (deliver L evts s))"

section \<open>The connection\<close>

definition poll_mqtt_socket :: "mqtt_lib \<Rightarrow> int \<Rightarrow> 's mqtt_state \<Rightarrow> int \<times> 's mqtt_state" where
  "poll_mqtt_socket L timeout s =
     (let s = prepare_fds L s
      in if nfds s \<le> 0 then (- EINVAL, s)
         else let s = log_call (Zsock_poll (pfd_fd s) timeout) s;
                  (rc, revents) = lib_poll L (calls s)
              in (rc, s\<lparr>pfd_revents := case_option (pfd_revents s) id revents\<rparr>))"

definition coo_mqtt_subscribe :: "mqtt_lib \<Rightarrow> 's mqtt_state \<Rightarrow> int \<times> 's mqtt_state" where
  "coo_mqtt_subscribe L s =
     (let s = log_call (Mqtt_subscribe (subscriptions s) 5841) s in (lib_subscribe L (calls s), s))"

definition coo_mqtt_process :: "mqtt_lib \<Rightarrow> 's mqtt_state \<Rightarrow> (int \<times> 's mqtt_state) option" where
  "coo_mqtt_process L s =
     (let (rc, s) = poll_mqtt_socket L (lib_keepalive L (calls s)) s
      in if rc \<noteq> 0 then
           (if ZSOCK_POLLIN \<in> set (pfd_revents s) then
              Option.bind (lib_call L (lib_input L) Mqtt_input s) (\<lambda>(rc, s).
                if rc \<noteq> 0 then Some (rc, s)
                else if ZSOCK_POLLHUP \<in> set (pfd_revents s) \<or> ZSOCK_POLLERR \<in> set (pfd_revents s)
                then Some (- ENOTCONN, s)
                else Some (0, s))
            else Some (0, s))
         else
           Option.bind (lib_call L (lib_live L) Mqtt_live s) (\<lambda>(rc, s).
             if rc \<noteq> 0 then Some (rc, s) else Some (0, s)))"

partial_function (option) process_while_connected :: "mqtt_lib \<Rightarrow> 's mqtt_state \<Rightarrow> 's mqtt_state option" where
  "process_while_connected L s =
     (if mqtt_connected s
      then Option.bind (coo_mqtt_process L s) (\<lambda>(rc, s). if rc \<noteq> 0 then Some s else process_while_connected L s)
      else Some s)"

definition coo_mqtt_run :: "mqtt_lib \<Rightarrow> 's mqtt_state \<Rightarrow> 's mqtt_state option" where
  "coo_mqtt_run L s =
     (let s = snd (coo_mqtt_subscribe L s)
      in Option.bind (process_while_connected L s) (\<lambda>s.
           map_option snd (lib_call L (lib_disconnect L) Mqtt_disconnect s)))"

text \<open>One round of the loop of \<open>coo_mqtt_connect\<close>.\<close>

definition connect_round :: "mqtt_lib \<Rightarrow> 's mqtt_state \<Rightarrow> 's mqtt_state option" where
  "connect_round L s =
     Option.bind (lib_call L (lib_connect L) Mqtt_connect s) (\<lambda>(rc, s).
       if rc \<noteq> 0 then Some (log_call (K_msleep MSECS_WAIT_RECONNECT) s)
       else let (rc, s) = poll_mqtt_socket L MSECS_NET_POLL_TIMEOUT s
            in Option.bind (if rc > 0 then map_option snd (lib_call L (lib_input L) Mqtt_input s) else Some s) (\<lambda>s.
                 if \<not> mqtt_connected s then map_option snd (lib_call L (lib_abort L) Mqtt_abort s) else Some s))"

partial_function (option) connect_until :: "mqtt_lib \<Rightarrow> 's mqtt_state \<Rightarrow> 's mqtt_state option" where
  "connect_until L s =
     (if \<not> mqtt_connected s then Option.bind (connect_round L s) (connect_until L) else Some s)"

definition coo_mqtt_connect :: "mqtt_lib \<Rightarrow> 's mqtt_state \<Rightarrow> 's mqtt_state option" where
  "coo_mqtt_connect L s = connect_until L (s\<lparr>mqtt_connected := False\<rparr>)"

text \<open>The resolver: the code of \<open>getaddrinfo\<close> and the address it found (\<open>None\<close>: a null pointer).\<close>

definition coo_mqtt_init ::
  "(string \<Rightarrow> string \<Rightarrow> int \<times> sockaddr_in option) \<Rightarrow> string \<Rightarrow> 's mqtt_state \<Rightarrow> int \<times> 's mqtt_state" where
  "coo_mqtt_init getaddrinfo id_str s =
     (let (rc, result) = getaddrinfo CONFIG_COO_MQTT_BROKER_HOSTNAME CONFIG_COO_MQTT_BROKER_PORT
      in if rc \<noteq> 0 then (- EIO, s)
         else case result of
           None \<Rightarrow> (- ENOENT, s)
         | Some ai \<Rightarrow>
             (let s = s\<lparr>broker := \<lparr>sin_family = AF_INET, sin_addr = sin_addr ai, sin_port = sin_port ai\<rparr>\<rparr>;
                  s = s\<lparr>client_id := (c_strncpy (client_id s) id_str (CLIENT_ID_SIZE - 1))[CLIENT_ID_SIZE - 1 := NUL]\<rparr>
              in (0, s\<lparr>client :=
                    \<lparr>cl_broker = broker s, cl_client_id = client_id s, cl_client_id_size = c_strlen (client_id s),
                     cl_password = None, cl_user_name = None, cl_version_5 = True,
                     cl_rx_buf_size = CONFIG_COO_MQTT_PAYLOAD_SIZE, cl_tx_buf_size = CONFIG_COO_MQTT_PAYLOAD_SIZE,
                     cl_transport = MQTT_TRANSPORT_NON_SECURE\<rparr>\<rparr>)))"

section \<open>Subscriptions\<close>

text \<open>A sequence of calls of \<open>coo_mqtt_add_subscription\<close>, with the codes they return.\<close>

fun add_subscriptions :: "(string \<times> u8) list \<Rightarrow> 's mqtt_state \<Rightarrow> int list \<times> 's mqtt_state" where
  "add_subscriptions [] s = ([], s)"
| "add_subscriptions ((t, q) # ts) s =
     (let (rc, s) = coo_mqtt_add_subscription t q s; (rcs, s) = add_subscriptions ts s in (rc # rcs, s))"

definition topic_of :: "string \<times> u8 \<Rightarrow> mqtt_topic" where
  "topic_of t = \<lparr>tp_utf8 = fst t, tp_size = c_strlen (fst t), tp_qos = snd t\<rparr>"

lemma add_subscriptions_eval:
  "add_subscriptions ts s =
    (let n = MAX_SUBSCRIPTIONS - length (subscriptions s)
     in (replicate (min n (length ts)) 0 @ replicate (length ts - n) (- ENOMEM),
         s\<lparr>subscriptions := subscriptions s @ take n (map topic_of ts)\<rparr>))"
proof (induction ts arbitrary: s)
  case (Cons t ts)
  show ?case
  proof (cases "length (subscriptions s) \<ge> MAX_SUBSCRIPTIONS")
    case True
    then show ?thesis
      by (cases t) (simp add: coo_mqtt_add_subscription_def Cons.IH Let_def)
  next
    case False
    then obtain n where n: "MAX_SUBSCRIPTIONS - length (subscriptions s) = Suc n"
      "MAX_SUBSCRIPTIONS - Suc (length (subscriptions s)) = n" by (metis Suc_diff_Suc not_le)
    with False show ?thesis
      by (cases t) (simp add: coo_mqtt_add_subscription_def Cons.IH Let_def topic_of_def)
  qed
qed simp

text \<open>
  The array of subscriptions never overflows. Of any sequence of topics the first ones that fit in the four
  entries are kept, in order and with their length, and answered with 0; all others are refused with
  \<open>-ENOMEM\<close> and leave no trace; a subscription afterwards asks the broker for exactly the kept ones.
\<close>

theorem subscriptions_bounded:
  "add_subscriptions ts (s\<lparr>subscriptions := []\<rparr>) =
    (replicate (min 4 (length ts)) 0 @ replicate (length ts - 4) (- ENOMEM),
     s\<lparr>subscriptions := take 4 (map topic_of ts)\<rparr>) \<and>
   calls (snd (coo_mqtt_subscribe L (snd (add_subscriptions ts (s\<lparr>subscriptions := []\<rparr>))))) =
     calls s @ [Mqtt_subscribe (take 4 (map topic_of ts)) 5841]"
  by (simp add: add_subscriptions_eval coo_mqtt_subscribe_def log_call_def Let_def MAX_SUBSCRIPTIONS_def)

section \<open>Events\<close>

text \<open>What the handler asks of the library on an event, and what becomes of the connection flag.\<close>

definition event_calls :: "mqtt_evt \<Rightarrow> sys_call list" where
  "event_calls e =
     (case evt_type e of
        MQTT_EVT_PUBREC \<Rightarrow> if evt_result e = 0 then [Mqtt_qos2_release (evt_message_id e)] else []
      | MQTT_EVT_PUBREL \<Rightarrow> if evt_result e = 0 then [Mqtt_qos2_complete (evt_message_id e)] else []
      | MQTT_EVT_PUBLISH \<Rightarrow>
          (if evt_qos e = 1 then [Mqtt_qos1_ack (evt_message_id e)]
           else if evt_qos e = 2 then [Mqtt_qos2_receive (evt_message_id e)] else []) @
          [Mqtt_read_payload CONFIG_COO_MQTT_PAYLOAD_SIZE]
      | _ \<Rightarrow> [])"

definition link_after :: "bool \<Rightarrow> mqtt_evt \<Rightarrow> bool" where
  "link_after up e \<longleftrightarrow>
     (if evt_type e = MQTT_EVT_DISCONNECT then False
      else if evt_type e = MQTT_EVT_CONNACK \<and> evt_result e = 0 then True else up)"

text \<open>What the documentation of \<open>mqtt_read_publish_payload\<close> promises: never more than was asked for.\<close>

definition read_law :: "mqtt_lib \<Rightarrow> bool" where
  "read_law L \<longleftrightarrow> (\<forall>h. length (snd (lib_read_payload L h)) \<le> CONFIG_COO_MQTT_PAYLOAD_SIZE \<and>
                     fst (lib_read_payload L h) \<le> int (length (snd (lib_read_payload L h))))"

lemma on_publish_facts:
  assumes "on_mqtt_publish L e s = Some s'"
  shows "calls s' = calls s @ [Mqtt_read_payload CONFIG_COO_MQTT_PAYLOAD_SIZE]"
    and "mqtt_connected s' = mqtt_connected s" and "subscriptions s' = subscriptions s"
    and "user_mqtt_cb s' = user_mqtt_cb s"
    and "fst (lib_read_payload L (calls s')) < 0 \<Longrightarrow> user_state s' = user_state s"
  using assms
  by (auto simp: on_mqtt_publish_def Let_def log_call_def case_prod_unfold split: if_splits option.splits)

lemma handler_facts:
  assumes "mqtt_event_handler L e s = Some s'"
  shows "calls s' = calls s @ event_calls e" and "mqtt_connected s' = link_after (mqtt_connected s) e"
    and "subscriptions s' = subscriptions s" and "user_mqtt_cb s' = user_mqtt_cb s"
    and "\<forall>h. fst (lib_read_payload L h) < 0 \<Longrightarrow> user_state s' = user_state s"
  using assms
  by (auto simp: mqtt_event_handler_def event_calls_def link_after_def on_mqtt_connect_def on_mqtt_disconnect_def
      clear_fds_def log_call_def MQTT_QOS_1_AT_LEAST_ONCE_def MQTT_QOS_2_EXACTLY_ONCE_def Let_def
      split: mqtt_evt_type.splits if_splits dest: on_publish_facts)

lemma deliver_facts:
  assumes "deliver L es s = Some s'"
  shows "calls s' = calls s @ concat (map event_calls es) \<and> mqtt_connected s' = foldl link_after (mqtt_connected s) es \<and>
    subscriptions s' = subscriptions s \<and> user_mqtt_cb s' = user_mqtt_cb s \<and>
    ((\<forall>h. fst (lib_read_payload L h) < 0) \<longrightarrow> user_state s' = user_state s)"
  using assms
proof (induction es arbitrary: s)
  case (Cons e es)
  then obtain t where t: "mqtt_event_handler L e s = Some t" "deliver L es t = Some s'"
    by (auto simp: bind_eq_Some_conv)
  from handler_facts [OF t(1)] Cons.IH [OF t(2)] show ?case by simp
qed simp

text \<open>
  C30: the events of a call are answered one by one, in their order, and with nothing else: a publish of quality 1
  or 2 by one acknowledgement with its own id and then one read of its payload, an intact \<open>PUBREC\<close> by a release and an
  intact \<open>PUBREL\<close> by a completion with its id. The connection flag follows the last event that concerns it. The
  acknowledgement comes before the read: when the read fails, the message is lost although it was acknowledged.
\<close>

theorem events_acknowledged:
  assumes "deliver L es s = Some s'"
  shows "calls s' = calls s @ concat (map event_calls es) \<and> mqtt_connected s' = foldl link_after (mqtt_connected s) es \<and>
    ((\<forall>h. fst (lib_read_payload L h) < 0) \<longrightarrow> user_state s' = user_state s)"
  using deliver_facts [OF assms] by simp

lemma publish_revents: "on_mqtt_publish L e s = Some s' \<Longrightarrow> pfd_revents s' = pfd_revents s"
  by (auto simp: on_mqtt_publish_def Let_def log_call_def case_prod_unfold split: if_splits option.splits)

lemma handler_revents: "mqtt_event_handler L e s = Some s' \<Longrightarrow> pfd_revents s' = pfd_revents s"
  by (auto simp: mqtt_event_handler_def on_mqtt_connect_def on_mqtt_disconnect_def clear_fds_def log_call_def Let_def
      split: mqtt_evt_type.splits if_splits dest: publish_revents)

lemma deliver_revents: "deliver L es s = Some s' \<Longrightarrow> pfd_revents s' = pfd_revents s"
proof (induction es arbitrary: s)
  case (Cons e es)
  then show ?case by (auto simp: bind_eq_Some_conv dest: handler_revents)
qed simp

lemma lib_call_revents: "lib_call L f c s = Some (rc, s') \<Longrightarrow> pfd_revents s' = pfd_revents s"
  by (auto simp: lib_call_def Let_def case_prod_unfold log_call_def dest: deliver_revents)

section \<open>Consumers of messages\<close>

text \<open>
  What the wrapper needs of the user's callback, and what it promises in return: whatever the library does, the
  callback's invariant is kept, and no step leaves an array.
\<close>

locale message_consumer =
  fixes cb :: "mqtt_message \<Rightarrow> 's \<Rightarrow> 's" and inv :: "'s \<Rightarrow> bool"
  assumes keeps: "length (payload_data m) \<le> CONFIG_COO_MQTT_PAYLOAD_SIZE \<Longrightarrow> inv u \<Longrightarrow> inv (cb m u)"
begin

definition consuming :: "'s mqtt_state \<Rightarrow> bool" where
  "consuming s \<longleftrightarrow> user_mqtt_cb s = Some cb \<and> inv (user_state s)"

lemma publish_consuming:
  assumes "read_law L" and "consuming s"
  shows "\<exists>s'. on_mqtt_publish L e s = Some s' \<and> consuming s'"
proof -
  let ?h = "calls s @ [Mqtt_read_payload CONFIG_COO_MQTT_PAYLOAD_SIZE]"
  obtain rc bytes where r: "lib_read_payload L ?h = (rc, bytes)" by (cases "lib_read_payload L ?h")
  with assms(1) have l: "length bytes \<le> CONFIG_COO_MQTT_PAYLOAD_SIZE" "rc \<le> int (length bytes)"
    by (auto simp: read_law_def dest: spec [of _ ?h])
  then have "nat rc \<le> CONFIG_COO_MQTT_PAYLOAD_SIZE" by simp
  with l show ?thesis
    using assms(2) keeps by (auto simp: on_mqtt_publish_def Let_def log_call_def r consuming_def)
qed

lemma handler_consuming:
  assumes "read_law L" and "consuming s"
  shows "\<exists>s'. mqtt_event_handler L e s = Some s' \<and> consuming s'"
proof -
  have "consuming (log_call c s)" for c using assms(2) by (simp add: consuming_def log_call_def)
  with publish_consuming [OF assms(1)] assms(2) show ?thesis
    by (auto simp: mqtt_event_handler_def on_mqtt_connect_def on_mqtt_disconnect_def clear_fds_def consuming_def Let_def
        split: mqtt_evt_type.split)
qed

lemma deliver_consuming:
  assumes "read_law L"
  shows "consuming s \<Longrightarrow> \<exists>s'. deliver L es s = Some s' \<and> consuming s'"
proof (induction es arbitrary: s)
  case (Cons e es)
  then show ?case using handler_consuming [OF assms, of s e] by auto
qed simp

lemma lib_call_consuming:
  assumes "read_law L" and "consuming s"
  shows "\<exists>rc s'. lib_call L f c s = Some (rc, s') \<and> consuming s'"
proof -
  have "consuming (log_call c s)" using assms(2) by (simp add: consuming_def log_call_def)
  from deliver_consuming [OF assms(1) this] show ?thesis
    by (auto simp: lib_call_def Let_def case_prod_unfold)
qed

lemma poll_consuming: "consuming s \<Longrightarrow> consuming (snd (poll_mqtt_socket L timeout s))"
  by (simp add: poll_mqtt_socket_def prepare_fds_def log_call_def consuming_def Let_def case_prod_unfold)

lemma process_consuming:
  assumes "read_law L" and "consuming s"
  shows "\<exists>rc s'. coo_mqtt_process L s = Some (rc, s') \<and> consuming s'"
proof -
  obtain prc p where p: "poll_mqtt_socket L (lib_keepalive L (calls s)) s = (prc, p)"
    by (cases "poll_mqtt_socket L (lib_keepalive L (calls s)) s")
  with poll_consuming [OF assms(2)] have "consuming p" by (metis snd_conv)
  with lib_call_consuming [OF assms(1) this, of "lib_input L" Mqtt_input]
    lib_call_consuming [OF assms(1) this, of "lib_live L" Mqtt_live]
  show ?thesis by (auto simp: coo_mqtt_process_def p Let_def)
qed

lemma round_consuming:
  assumes "read_law L" and "consuming s"
  shows "\<exists>s'. connect_round L s = Some s' \<and> consuming s'"
proof -
  obtain rc t where t: "lib_call L (lib_connect L) Mqtt_connect s = Some (rc, t)" "consuming t"
    using lib_call_consuming [OF assms] by blast
  obtain prc p where p: "poll_mqtt_socket L MSECS_NET_POLL_TIMEOUT t = (prc, p)"
    by (cases "poll_mqtt_socket L MSECS_NET_POLL_TIMEOUT t")
  with poll_consuming [OF t(2)] have "consuming p" by (metis snd_conv)
  then have "\<exists>q. (if prc > 0 then map_option snd (lib_call L (lib_input L) Mqtt_input p) else Some p) = Some q \<and> consuming q"
    using lib_call_consuming [OF assms(1), of p "lib_input L" Mqtt_input] by (cases "prc > 0") auto
  then obtain q where q: "(if prc > 0 then map_option snd (lib_call L (lib_input L) Mqtt_input p) else Some p) = Some q"
    "consuming q" by blast
  have "consuming (log_call c t)" for c using t(2) by (simp add: consuming_def log_call_def)
  with q lib_call_consuming [OF assms(1) q(2), of "lib_abort L" Mqtt_abort] show ?thesis
    by (auto simp: connect_round_def t p)
qed

lemma connect_until_consuming:
  "connect_until L s = Some s' \<Longrightarrow> read_law L \<longrightarrow> consuming s \<longrightarrow> mqtt_connected s' \<and> consuming s'"
proof (induction rule: connect_until.raw_induct [rotated, consumes 1, case_names step])
  case (step f L s s')
  show ?case
  proof (intro impI)
    assume L: "read_law L" "consuming s"
    from round_consuming [OF this] obtain t where "connect_round L s = Some t" "consuming t" by blast
    with step(1) [of L] step(2) L show "mqtt_connected s' \<and> consuming s'" by (auto split: if_splits)
  qed
qed

lemma process_loop_consuming:
  "process_while_connected L s = Some s' \<Longrightarrow> read_law L \<longrightarrow> consuming s \<longrightarrow> consuming s'"
proof (induction rule: process_while_connected.raw_induct [rotated, consumes 1, case_names step])
  case (step f L s s')
  show ?case
  proof (intro impI)
    assume L: "read_law L" "consuming s"
    from process_consuming [OF this] obtain rc t where "coo_mqtt_process L s = Some (rc, t)" "consuming t" by blast
    with step(1) [of L] step(2) L show "consuming s'" by (auto split: if_splits)
  qed
qed

lemma run_consuming:
  assumes "read_law L" and "coo_mqtt_run L s = Some s'" and "consuming s"
  shows "consuming s'"
proof -
  have "consuming (snd (coo_mqtt_subscribe L s))"
    using assms(3) by (simp add: coo_mqtt_subscribe_def log_call_def consuming_def Let_def)
  moreover obtain t where t: "process_while_connected L (snd (coo_mqtt_subscribe L s)) = Some t"
    "map_option snd (lib_call L (lib_disconnect L) Mqtt_disconnect t) = Some s'"
    using assms(2) by (auto simp: coo_mqtt_run_def Let_def bind_eq_Some_conv)
  ultimately have "consuming t" using process_loop_consuming [OF t(1)] assms(1) by blast
  from lib_call_consuming [OF assms(1) this, of "lib_disconnect L" Mqtt_disconnect] t(2) show ?thesis by auto
qed

end

section \<open>Polling\<close>

text \<open>
  One call of \<open>coo_mqtt_process\<close> waits once, for the whole keep-alive time that is left. It then reads the
  input exactly when the poll reported something and data is flagged, and sends the keep-alive exactly when the
  poll timed out. A poll that failed or reported an error or a hang-up without data makes no further call, changes
  nothing and is answered with success.
\<close>

theorem process_spec:
  "coo_mqtt_process L s =
    (let polled = calls s @ [Zsock_poll (pfd_fd (prepare_fds L s)) (lib_keepalive L (calls s))];
         (prc, flags) = lib_poll L polled;
         revents = case_option (pfd_revents s) id flags;
         t = (prepare_fds L s)\<lparr>pfd_revents := revents, calls := polled\<rparr>
     in if prc = 0 then lib_call L (lib_live L) Mqtt_live t
        else if ZSOCK_POLLIN \<notin> set revents then Some (0, t)
        else map_option (\<lambda>(rc, u).
               (if rc = 0 \<and> (ZSOCK_POLLHUP \<in> set revents \<or> ZSOCK_POLLERR \<in> set revents) then - ENOTCONN else rc, u))
             (lib_call L (lib_input L) Mqtt_input t))"
proof -
  let ?p = "prepare_fds L s" and ?k = "lib_keepalive L (calls s)"
  let ?polled = "calls s @ [Zsock_poll (pfd_fd ?p) ?k]"
  obtain prc flags where lp: "lib_poll L ?polled = (prc, flags)" by (cases "lib_poll L ?polled")
  let ?r = "case_option (pfd_revents s) id flags"
  let ?t = "?p\<lparr>pfd_revents := ?r, calls := ?polled\<rparr>"
  have c: "calls ?p = calls s" "pfd_revents ?p = pfd_revents s" "nfds ?p = 1"
    by (simp_all add: prepare_fds_def Let_def)
  have p: "poll_mqtt_socket L ?k s = (prc, ?t)"
    by (cases flags) (simp_all add: poll_mqtt_socket_def Let_def log_call_def c lp)
  have c0: "lib_call L (lib_input L) Mqtt_input ?t = None \<or>
      (\<exists>rc u. lib_call L (lib_input L) Mqtt_input ?t = Some (rc, u) \<and> pfd_revents u = ?r)"
    using lib_call_revents [of L "lib_input L" Mqtt_input ?t]
    by (cases "lib_call L (lib_input L) Mqtt_input ?t") auto
  have same: "Option.bind r (\<lambda>(rc, u). if rc \<noteq> 0 then Some (rc, u) else Some (0, u)) = r" for r :: "(int \<times> 's mqtt_state) option"
    by (cases r) auto
  show ?thesis
    unfolding coo_mqtt_process_def p Let_def lp prod.case
    using c0 same by auto
qed

section \<open>Connecting\<close>

text \<open>A library that refuses \<open>n\<close> connections from the state \<open>h\<close> on, and then accepts one.\<close>

definition refusals :: "nat \<Rightarrow> sys_call list" where
  "refusals n = concat (replicate n [Mqtt_connect, K_msleep MSECS_WAIT_RECONNECT])"

definition accepts_after :: "mqtt_lib \<Rightarrow> sys_call list \<Rightarrow> nat \<Rightarrow> bool" where
  "accepts_after L h n \<longleftrightarrow>
     list_all (\<lambda>i. fst (lib_connect L (h @ refusals i @ [Mqtt_connect])) \<noteq> 0 \<and>
                   snd (lib_connect L (h @ refusals i @ [Mqtt_connect])) = []) [0..<n] \<and>
     lib_connect L (h @ refusals n @ [Mqtt_connect]) = (0, []) \<and>
     0 < fst (lib_poll L (h @ refusals n @ [Mqtt_connect,
              Zsock_poll (lib_sock L (h @ refusals n @ [Mqtt_connect])) MSECS_NET_POLL_TIMEOUT])) \<and>
     (\<exists>rc e. evt_type e = MQTT_EVT_CONNACK \<and> evt_result e = 0 \<and>
        lib_input L (h @ refusals n @ [Mqtt_connect,
              Zsock_poll (lib_sock L (h @ refusals n @ [Mqtt_connect])) MSECS_NET_POLL_TIMEOUT, Mqtt_input]) = (rc, [e]))"

lemma refusals_add: "refusals (Suc n) @ h = refusals (Suc 0) @ refusals n @ h"
  by (simp add: refusals_def)

lemma refusals_0: "refusals 0 = []"
  by (simp add: refusals_def)

lemma refused_round:
  assumes "fst (lib_connect L (calls s @ [Mqtt_connect])) \<noteq> 0" and "snd (lib_connect L (calls s @ [Mqtt_connect])) = []"
  shows "connect_round L s = Some (s\<lparr>calls := calls s @ refusals 1\<rparr>)"
  using assms by (simp add: connect_round_def lib_call_def log_call_def Let_def case_prod_unfold refusals_def)

lemma accepted_round:
  assumes "accepts_after L (calls s) 0" and "cl_transport (client s) = MQTT_TRANSPORT_NON_SECURE"
  shows "\<exists>s'. connect_round L s = Some s' \<and> mqtt_connected s' \<and>
    calls s' = calls s @ [Mqtt_connect, Zsock_poll (lib_sock L (calls s @ [Mqtt_connect])) MSECS_NET_POLL_TIMEOUT, Mqtt_input]"
  using assms
  by (auto simp: accepts_after_def refusals_def connect_round_def lib_call_def log_call_def Let_def case_prod_unfold
      poll_mqtt_socket_def prepare_fds_def mqtt_event_handler_def on_mqtt_connect_def)

lemma connect_after_refusals:
  assumes "accepts_after L (calls s) n" and "cl_transport (client s) = MQTT_TRANSPORT_NON_SECURE" and "\<not> mqtt_connected s"
  shows "\<exists>s'. connect_until L s = Some s' \<and> mqtt_connected s' \<and>
    calls s' = calls s @ refusals n @ [Mqtt_connect,
      Zsock_poll (lib_sock L (calls s @ refusals n @ [Mqtt_connect])) MSECS_NET_POLL_TIMEOUT, Mqtt_input]"
  using assms
proof (induction n arbitrary: s)
  case 0
  from accepted_round [OF 0(1,2)] obtain s' where s': "connect_round L s = Some s'" "mqtt_connected s'"
    "calls s' = calls s @ [Mqtt_connect, Zsock_poll (lib_sock L (calls s @ [Mqtt_connect])) MSECS_NET_POLL_TIMEOUT, Mqtt_input]" by blast
  with 0(3) show ?case
    by (subst connect_until.simps) (simp add: refusals_def connect_until.simps [of L s'])
next
  case (Suc n)
  let ?t = "s\<lparr>calls := calls s @ refusals 1\<rparr>"
  have a: "calls ?t @ refusals i = calls s @ refusals (Suc i)" for i
    by (simp add: refusals_def)
  have "accepts_after L (calls ?t) n"
    using Suc.prems(1) unfolding accepts_after_def append_assoc [symmetric] a
    by (simp add: list_all_iff del: upt_Suc)
  moreover have "connect_round L s = Some ?t"
    using Suc.prems(1) by (intro refused_round) (simp_all add: accepts_after_def upt_conv_Cons refusals_0 del: upt_Suc)
  ultimately show ?case
    using Suc.IH [of ?t] Suc.prems(2,3)
    by (subst connect_until.simps) (simp add: refusals_add [symmetric])
qed

text \<open>
  C17: when the broker refuses the first \<open>n\<close> connections and accepts the next, \<open>coo_mqtt_connect\<close> returns,
  connected: \<open>n\<close> refused attempts, each followed by the same wait of 5000 ms, whatever \<open>n\<close> is, then the accepted
  one, one poll of 30 s and one read of the input. Nothing else happens meanwhile.
\<close>

theorem connect_retries:
  assumes "accepts_after L (calls s) n" and "cl_transport (client s) = MQTT_TRANSPORT_NON_SECURE"
  shows "\<exists>s'. coo_mqtt_connect L s = Some s' \<and> coo_mqtt_is_connected s' \<and>
    calls s' = calls s @ concat (replicate n [Mqtt_connect, K_msleep 5000]) @ [Mqtt_connect,
      Zsock_poll (lib_sock L (calls s @ concat (replicate n [Mqtt_connect, K_msleep 5000]) @ [Mqtt_connect])) 30000, Mqtt_input]"
  using connect_after_refusals [of L "s\<lparr>mqtt_connected := False\<rparr>" n] assms
  by (simp add: coo_mqtt_connect_def coo_mqtt_is_connected_def refusals_def tib_defs)

text \<open>A stack that refuses two connections, and the client after its initialisation.\<close>

definition no_message :: mqtt_message where
  "no_message = \<lparr>topic_utf8 = [], payload_data = [], response_utf8 = None, correlation = []\<rparr>"

definition connack :: mqtt_evt where
  "connack = \<lparr>evt_type = MQTT_EVT_CONNACK, evt_result = 0, evt_message_id = 0, evt_qos = 0, evt_message = no_message\<rparr>"

definition slow_broker :: mqtt_lib where
  "slow_broker =
     \<lparr>lib_connect = (\<lambda>h. (if length h < 5 then - ETIMEDOUT else 0, [])), lib_input = (\<lambda>h. (0, [connack])),
      lib_live = (\<lambda>h. (0, [])), lib_abort = (\<lambda>h. (0, [])), lib_disconnect = (\<lambda>h. (0, [])), lib_publish = (\<lambda>h. (0, [])), lib_subscribe = (\<lambda>h. 0),
      lib_read_payload = (\<lambda>h. (- EAGAIN, [])), lib_keepalive = (\<lambda>h. 60000), lib_sock = (\<lambda>h. 3),
      lib_poll = (\<lambda>h. (1, Some [ZSOCK_POLLIN]))\<rparr>"

definition idle_client :: "'s \<Rightarrow> 's mqtt_state" where
  "idle_client u =
     \<lparr>broker = \<lparr>sin_family = AF_UNSPEC, sin_addr = 0, sin_port = 0\<rparr>, pfd_fd = 0, pfd_events = [], pfd_revents = [],
      nfds = 0, mqtt_connected = False, client_id = replicate CLIENT_ID_SIZE NUL, user_mqtt_cb = None, subscriptions = [],
      client = \<lparr>cl_broker = \<lparr>sin_family = AF_UNSPEC, sin_addr = 0, sin_port = 0\<rparr>, cl_client_id = [],
        cl_client_id_size = 0, cl_password = None, cl_user_name = None, cl_version_5 = False, cl_rx_buf_size = 0,
        cl_tx_buf_size = 0, cl_transport = MQTT_TRANSPORT_NON_SECURE\<rparr>,
      user_state = u, calls = []\<rparr>"

definition ready_client :: "'s \<Rightarrow> 's mqtt_state" where
  "ready_client u =
     snd (coo_mqtt_init (\<lambda>host port. (0, Some \<lparr>sin_family = AF_INET, sin_addr = 1, sin_port = 1883\<rparr>)) ''hsfib-tib''
       (idle_client u))"

lemma ready_client_facts:
  "cl_transport (client (ready_client u)) = MQTT_TRANSPORT_NON_SECURE" "calls (ready_client u) = []"
  "subscriptions (ready_client u) = []" "user_state (ready_client u) = u" "user_mqtt_cb (ready_client u) = None"
  by (simp_all add: ready_client_def coo_mqtt_init_def idle_client_def Let_def)

lemma slow_broker_accepts: "accepts_after slow_broker [] 2"
  by (simp add: accepts_after_def slow_broker_def refusals_def connack_def upt_rec numeral_eq_Suc ETIMEDOUT_def)

theorem connect_retries_witness:
  "\<exists>s'. coo_mqtt_connect slow_broker (ready_client ()) = Some s' \<and> coo_mqtt_is_connected s' \<and>
     calls s' = [Mqtt_connect, K_msleep 5000, Mqtt_connect, K_msleep 5000, Mqtt_connect, Zsock_poll 3 30000, Mqtt_input]"
proof -
  have "lib_sock slow_broker h = 3" for h by (simp add: slow_broker_def)
  then show ?thesis
    using connect_retries [of slow_broker "ready_client ()" 2] slow_broker_accepts
    by (simp add: ready_client_facts numeral_eq_Suc)
qed

text \<open>A publish of quality 2 whose payload cannot be read.\<close>

theorem events_acknowledged_witness:
  "\<exists>s'. deliver slow_broker [connack, connack\<lparr>evt_type := MQTT_EVT_PUBLISH, evt_qos := 2, evt_message_id := 7\<rparr>] (ready_client ()) = Some s' \<and>
     calls s' = [Mqtt_qos2_receive 7, Mqtt_read_payload 256] \<and> mqtt_connected s'"
proof -
  let ?es = "[connack, connack\<lparr>evt_type := MQTT_EVT_PUBLISH, evt_qos := 2, evt_message_id := 7\<rparr>]"
  have "deliver slow_broker ?es (ready_client ()) \<noteq> None"
    by (simp add: mqtt_event_handler_def connack_def on_mqtt_publish_def slow_broker_def Let_def log_call_def EAGAIN_def)
  then obtain s' where s': "deliver slow_broker ?es (ready_client ()) = Some s'" by blast
  from events_acknowledged [OF this] s' show ?thesis
    by (simp add: event_calls_def link_after_def connack_def ready_client_facts tib_defs)
qed

text \<open>The identifier the client is configured with always ends inside its array.\<close>

lemma strncpy_terminated:
  assumes "n < length dst"
  shows "cstr ((c_strncpy dst src n)[n := NUL]) = take n (cstr src)"
proof -
  have "(c_strncpy dst src n)[n := NUL] = c_strncpy (dst[n := NUL]) src n"
    by (simp add: c_strncpy_def mem_write_def list_update_append drop_update_swap)
  with assms show ?thesis by (simp add: cstr_c_strncpy)
qed

lemma take_strlen: "take (c_strlen t) t = cstr t"
  by (simp add: c_strlen_def cstr_def takeWhile_eq_take [symmetric])

text \<open>
  A successful initialisation leaves a client that can be connected: the address the resolver found, no
  credentials, a plain connection, buffers of their declared sizes, and as identifier the first 49 bytes of the given
  name, with its length. When the name of the broker cannot be resolved, nothing has changed.
\<close>

theorem init_spec:
  assumes "length (client_id s) = CLIENT_ID_SIZE"
  shows "(case resolve CONFIG_COO_MQTT_BROKER_HOSTNAME CONFIG_COO_MQTT_BROKER_PORT of
       (rc, ai) \<Rightarrow>
         if rc \<noteq> 0 then coo_mqtt_init resolve id_str s = (- EIO, s)
         else case ai of
           None \<Rightarrow> coo_mqtt_init resolve id_str s = (- ENOENT, s)
         | Some a \<Rightarrow>
             (let (code, s') = coo_mqtt_init resolve id_str s; c = client s'
              in code = 0 \<and> sin_addr (cl_broker c) = sin_addr a \<and> sin_port (cl_broker c) = sin_port a \<and>
                 take (cl_client_id_size c) (cl_client_id c) = take 49 (cstr id_str) \<and>
                 length (cl_client_id c) = CLIENT_ID_SIZE \<and> cl_transport c = MQTT_TRANSPORT_NON_SECURE \<and>
                 cl_rx_buf_size c = 256 \<and> cl_tx_buf_size c = 256 \<and>
                 cl_password c = None \<and> cl_user_name c = None))"
  using assms strncpy_terminated [of 49 "client_id s" id_str]
  by (simp add: coo_mqtt_init_def Let_def take_strlen tib_defs split: prod.split option.split)

theorem init_spec_witness:
  "fst (coo_mqtt_init (\<lambda>h p. (0, Some \<lparr>sin_family = AF_INET, sin_addr = 1, sin_port = 1883\<rparr>)) ''hsfib-tib'' (idle_client ())) = 0 \<and>
   cl_rx_buf_size (client (snd (coo_mqtt_init (\<lambda>h p. (0, Some \<lparr>sin_family = AF_INET, sin_addr = 1, sin_port = 1883\<rparr>))
     ''hsfib-tib'' (idle_client ())))) = 256"
  using init_spec [of "idle_client ()" "\<lambda>h p. (0, Some \<lparr>sin_family = AF_INET, sin_addr = 1, sin_port = 1883\<rparr>)" "''hsfib-tib''"]
  by (simp add: idle_client_def case_prod_unfold Let_def)

end
