(* ===== verification/Main_App.thy ===== *)
theory Main_App
  imports Command_Spec Photodiode Mqtt_Client
begin

text \<open>
  \<open>app/src/main.c\<close>: the MQTT message callback, the executor thread, the work item that forwards samples,
  the loop that publishes what is queued, and the watchdog. The threads interleave: the state they share
  is one record, and each of their steps between two blocking calls is a step of the relation \<open>app_step\<close>.
  The network side (\<open>mqtt_publish\<close>) is the list of parameters handed to it.
\<close>

definition MQTT_CMD_PREFIX :: string where "MQTT_CMD_PREFIX = ''cmd/hsfib-tib/req/''"
definition WDT_FEED_INTERVAL_MS :: int where [tib_defs]: "WDT_FEED_INTERVAL_MS = 1000"
definition WDT_TIMEOUT_MS :: nat where [tib_defs]: "WDT_TIMEOUT_MS = 5000"

section \<open>The message callback\<close>

definition zero_Command :: Command where
  "zero_Command =
     \<lparr>cmd_msg_type = GET, cmd_key = replicate MAX_KEY_LEN NUL, cmd_session_id = replicate MAX_SESSION_ID_LEN NUL,
      cmd_response_topic = replicate MAX_TOPIC_LEN NUL, cmd_payload_len = 0,
      cmd_payload = replicate MAX_PAYLOAD_LEN NUL, cmd_correlation_data = replicate MAX_CORRELATION_DATA 0,
      cmd_corr_len = 0\<rparr>"

definition with_correlation :: "u8 list \<Rightarrow> Command \<Rightarrow> Command" where
  "with_correlation data cmd =
     (if length data > 0 \<and> length data < MAX_CORRELATION_DATA
      then cmd\<lparr>cmd_correlation_data := mem_write (cmd_correlation_data cmd) data, cmd_corr_len := length data\<rparr>
      else cmd)"

definition mqtt_command_handler ::
  "json_lib \<Rightarrow> ('i, Command) msgq \<Rightarrow> ('o, OutMsg) msgq \<Rightarrow> mqtt_message \<Rightarrow> 'i \<times> 'o \<Rightarrow> 'i \<times> 'o" where
  "mqtt_command_handler J I Q pub io =
     (let (inq, outq) = io;
          refuse = (\<lambda>cmd. (inq, snd (q_put Q outq (invalid_command_response cmd))));
          cmd = zero_Command; prefix_len = c_strlen MQTT_CMD_PREFIX
      in if c_strncmp (topic_utf8 pub) MQTT_CMD_PREFIX prefix_len \<noteq> 0 then (inq, outq)
         else let suffix = drop prefix_len (topic_utf8 pub); suffix_len = c_strlen suffix
              in if suffix_len = 0 \<or> suffix_len \<ge> MAX_KEY_LEN then refuse cmd
                 else let cmd = cmd\<lparr>cmd_key := mem_write (cmd_key cmd) (take suffix_len suffix @ [NUL])\<rparr>
                      in if length (payload_data pub) \<ge> MAX_PAYLOAD_LEN then (inq, outq)
                         else let cmd = cmd\<lparr>cmd_payload := mem_write (cmd_payload cmd) (payload_data pub @ [NUL])\<rparr>;
                                  (mt, rest) = parse_msg_type_from_payload J (cmd_payload cmd);
                                  cmd = cmd\<lparr>cmd_payload := rest\<rparr>
                              in case mt of
                                   None \<Rightarrow> refuse cmd
                                 | Some t \<Rightarrow>
                                     (let cmd = cmd\<lparr>cmd_msg_type := t\<rparr>
                                      in case response_utf8 pub of
                                           None \<Rightarrow> refuse cmd
                                         | Some rt \<Rightarrow>
                                             (if \<not> length rt < MAX_TOPIC_LEN then refuse cmd
                                              else let cmd = cmd\<lparr>cmd_response_topic :=
                                                               mem_write (cmd_response_topic cmd) (rt @ [NUL])\<rparr>;
                                                       cmd = with_correlation (correlation pub) cmd;
                                                       (rc, inq') = q_put I inq cmd
                                                   in if rc \<noteq> 0 then (inq', snd (q_put Q outq (busy_response cmd)))
                                                      else (inq', outq))))"

section \<open>The executor, the forwarder and the publisher\<close>

record ('i, 'o, 'p) app =
  app_tib :: tib
  inbound :: 'i
  outbound :: 'o
  samples :: 'p
  executing :: "OutMsg option"     \<comment> \<open>the reply the executor is about to queue\<close>
  msg_id :: u16
  published :: "mqtt_param list"

text \<open>
  A step of the executor: take a command and dispatch it, or, with a reply in hand, queue it. Both calls
  wait (\<open>K_FOREVER\<close>): while there is nothing to take, or no room, the step does nothing. \<open>None\<close> is the
  undefined behaviour of a handler.
\<close>

definition executor_step ::
  "runtime \<Rightarrow> ('i, Command) msgq \<Rightarrow> ('o, OutMsg) msgq \<Rightarrow> ('i, 'o, 'p) app \<Rightarrow> ('i, 'o, 'p) app option" where
  "executor_step R I Q s =
     (case executing s of
        None \<Rightarrow>
          (case q_get I (inbound s) of
             None \<Rightarrow> Some s
           | Some (cmd, inq) \<Rightarrow>
               (case dispatch_command R cmd (app_tib s) of
                  None \<Rightarrow> None
                | Some (om, t) \<Rightarrow> Some (s\<lparr>inbound := inq, app_tib := t, executing := Some om\<rparr>)))
      | Some om \<Rightarrow>
          (let (rc, outq) = q_put Q (outbound s) om
           in if rc \<noteq> 0 then Some s else Some (s\<lparr>outbound := outq, executing := None\<rparr>)))"

text \<open>The loop of \<open>photodiode_publish_handler\<close>; the work item then schedules itself again after 10 ms.\<close>

partial_function (option) forward_samples ::
  "('p, OutMsg) msgq \<Rightarrow> ('o, OutMsg) msgq \<Rightarrow> 'p \<Rightarrow> 'o \<Rightarrow> ('p \<times> 'o) option" where
  "forward_samples P Q pq outq =
     (case q_get P pq of
        None \<Rightarrow> Some (pq, outq)
      | Some (r, pq) \<Rightarrow> (let (rc, outq) = q_put Q outq r in forward_samples P Q pq outq))"

definition publish_param :: "OutMsg \<Rightarrow> u16 \<Rightarrow> mqtt_param" where
  "publish_param om i =
     \<lparr>par_qos = out_qos om, par_topic = out_topic om, par_topic_size = c_strlen (out_topic om),
      par_payload = out_payload om, par_payload_len = out_payload_len om,
      par_correlation = out_correlation_data om, par_correlation_len = out_corr_len om, par_message_id = i\<rparr>"

section \<open>The watchdog\<close>

text \<open>
  The device (\<open>None\<close>: not there or not ready) and the results of its driver; the outcome is the result
  code, \<open>*wdt_out\<close> and \<open>*wdt_channel_out\<close>.
\<close>

definition watchdog_init ::
  "'d option \<Rightarrow> int \<Rightarrow> int \<Rightarrow> 'd option \<Rightarrow> int \<Rightarrow> int \<times> 'd option \<times> int" where
  "watchdog_init wdt install_rc setup_rc wdt_out wdt_channel_out =
     (case wdt of
        None \<Rightarrow> (- ENODEV, None, wdt_channel_out)
      | Some d \<Rightarrow>
          (if install_rc < 0 then (install_rc, wdt_out, wdt_channel_out)
           else if setup_rc < 0 then (- EIO, wdt_out, wdt_channel_out)
           else (0, Some d, install_rc)))"

section \<open>Stored settings\<close>

text \<open>
  \<open>setting_handler\<close>, a stub: the value restored for \<open>foo\<close>, which is only printed, and the result.
  The callback \<open>read_cb\<close> is a parameter: the number of bytes read and the byte.
\<close>

definition setting_handler :: "string \<Rightarrow> nat \<Rightarrow> (nat \<Rightarrow> int \<times> u8) \<Rightarrow> u8 option \<times> int" where
  "setting_handler name len read_cb =
     (if c_strcmp name ''foo'' = 0 \<and> len = 1
      then let (n, val) = read_cb 1 in if n = 1 then (Some val, 0) else (None, 0)
      else (None, 0))"

section \<open>The system\<close>

text \<open>
  A step of the system: a message arrives, the executor takes a step, the photodiode thread finishes a
  round, the work item forwards what is queued, or the main loop publishes one queued message. The driver and
  stack behaviour \<open>R\<close> may differ from step to step.
\<close>

inductive app_step ::
  "json_lib \<Rightarrow> ('i, Command) msgq \<Rightarrow> ('o, OutMsg) msgq \<Rightarrow> ('p, OutMsg) msgq \<Rightarrow>
     ('i, 'o, 'p) app \<Rightarrow> ('i, 'o, 'p) app \<Rightarrow> bool"
  for J I Q P where
  receive: "mqtt_command_handler J I Q pub (inbound s, outbound s) = (inq, outq) \<Longrightarrow>
     app_step J I Q P s (s\<lparr>inbound := inq, outbound := outq\<rparr>)"
| execute: "json R = J \<Longrightarrow> executor_step R I Q s = Some s' \<Longrightarrow> app_step J I Q P s s'"
| sample: "photodiode_round P a (samples s) = Some (pq, slept) \<Longrightarrow> app_step J I Q P s (s\<lparr>samples := pq\<rparr>)"
| forward: "forward_samples P Q (samples s) (outbound s) = Some (pq, outq) \<Longrightarrow>
     app_step J I Q P s (s\<lparr>samples := pq, outbound := outq\<rparr>)"
| publish: "q_get Q (outbound s) = Some (om, outq) \<Longrightarrow>
     app_step J I Q P s (s\<lparr>outbound := outq, msg_id := msg_id s + 1, published := published s @ [publish_param om (msg_id s)]\<rparr>)"

inductive app_reachable ::
  "json_lib \<Rightarrow> ('i, Command) msgq \<Rightarrow> ('o, OutMsg) msgq \<Rightarrow> ('p, OutMsg) msgq \<Rightarrow>
     ('i, 'o, 'p) app \<Rightarrow> ('i, 'o, 'p) app \<Rightarrow> bool"
  for J I Q P s0 where
  start: "app_reachable J I Q P s0 s0"
| step: "app_reachable J I Q P s0 s \<Longrightarrow> app_step J I Q P s s' \<Longrightarrow> app_reachable J I Q P s0 s'"

inductive_cases app_stepE: "app_step J I Q P s s'"

text \<open>After the initialisation calls of \<open>main\<close>, with the queues empty.\<close>

definition app_start :: "platform \<Rightarrow> 'i \<Rightarrow> 'o \<Rightarrow> 'p \<Rightarrow> ('i, 'o, 'p) app option" where
  "app_start B inq outq pq =
     map_option (\<lambda>t. \<lparr>app_tib = t, inbound = inq, outbound = outq, samples = pq, executing = None,
                      msg_id = 1, published = []\<rparr>) (boot B)"

end
