(* ===== verification/Main_App_Spec.thy ===== *)
theory Main_App_Spec
  imports Main_App
begin

text \<open>
  The properties of \<open>Main_App\<close>: the outcome of the message callback, that the threads keep the
  well-formedness of every queued and published message, that the publisher publishes everything in order,
  and what commands can and cannot do to the box.
\<close>

section \<open>Commands in the queue\<close>

text \<open>What the callback relies on in the JSON library: the text is parsed in place.\<close>

definition json_in_place :: "json_lib \<Rightarrow> bool" where
  "json_in_place J \<longleftrightarrow> (\<forall>t. length (fst (snd (json_msg_type J t))) = length t)"

text \<open>What every queued command satisfies; in particular its payload length is never set.\<close>

definition queued_ok :: "Command \<Rightarrow> bool" where
  "queued_ok c \<longleftrightarrow> command_wf c \<and> cmd_payload_len c = 0 \<and> (cmd_msg_type c = GET \<or> cmd_msg_type c = SET) \<and>
     0 < c_strlen (cmd_key c) \<and> c_strlen (cmd_key c) < MAX_KEY_LEN"

text \<open>The part of a message the callback turns into a command.\<close>

definition suffix_of :: "mqtt_message \<Rightarrow> string" where
  "suffix_of pub = cstr (drop 18 (topic_utf8 pub))"

definition accepted_prefix :: "mqtt_message \<Rightarrow> bool" where
  "accepted_prefix pub \<longleftrightarrow> take 18 (cstr (topic_utf8 pub)) = MQTT_CMD_PREFIX"

lemma prefix_facts: "c_strlen MQTT_CMD_PREFIX = 18" "cstr MQTT_CMD_PREFIX = MQTT_CMD_PREFIX" "length MQTT_CMD_PREFIX = 18"
  by code_simp+

lemma prefix_test: "c_strncmp (topic_utf8 pub) MQTT_CMD_PREFIX 18 = 0 \<longleftrightarrow> accepted_prefix pub"
  by (simp add: c_strncmp_0_iff prefix_facts accepted_prefix_def)

text \<open>The command as far as the key, the payload and the message type.\<close>

definition parsed_command :: "json_lib \<Rightarrow> mqtt_message \<Rightarrow> MsgType option \<times> Command" where
  "parsed_command J pub =
     (let cmd = zero_Command\<lparr>cmd_key := mem_write (replicate MAX_KEY_LEN NUL) (suffix_of pub @ [NUL])\<rparr>;
          (mt, rest) = parse_msg_type_from_payload J (mem_write (replicate MAX_PAYLOAD_LEN NUL) (payload_data pub @ [NUL]))
      in (mt, cmd\<lparr>cmd_payload := rest\<rparr>))"

definition addressed :: "mqtt_message \<Rightarrow> MsgType \<Rightarrow> string \<Rightarrow> Command \<Rightarrow> Command" where
  "addressed pub t rt cmd =
     with_correlation (correlation pub)
       (cmd\<lparr>cmd_msg_type := t, cmd_response_topic := mem_write (replicate MAX_TOPIC_LEN NUL) (rt @ [NUL])\<rparr>)"

lemma handler_cases:
  "mqtt_command_handler J I Q pub (inq, outq) =
    (let refuse = (\<lambda>cmd. (inq, snd (q_put Q outq (invalid_command_response cmd)))) in
     if \<not> accepted_prefix pub then (inq, outq)
     else if suffix_of pub = [] \<or> MAX_KEY_LEN \<le> length (suffix_of pub) then refuse zero_Command
     else if MAX_PAYLOAD_LEN \<le> length (payload_data pub) then (inq, outq)
     else case fst (parsed_command J pub) of
            None \<Rightarrow> refuse (snd (parsed_command J pub))
          | Some t \<Rightarrow>
              (case response_utf8 pub of
                 None \<Rightarrow> refuse ((snd (parsed_command J pub))\<lparr>cmd_msg_type := t\<rparr>)
               | Some rt \<Rightarrow>
                   (if \<not> length rt < MAX_TOPIC_LEN then refuse ((snd (parsed_command J pub))\<lparr>cmd_msg_type := t\<rparr>)
                    else let cmd = addressed pub t rt (snd (parsed_command J pub))
                         in if fst (q_put I inq cmd) \<noteq> 0
                            then (snd (q_put I inq cmd), snd (q_put Q outq (busy_response cmd)))
                            else (snd (q_put I inq cmd), outq))))"
proof -
  have t: "take (c_strlen (drop 18 (topic_utf8 pub))) (drop 18 (topic_utf8 pub)) = suffix_of pub"
    unfolding suffix_of_def c_strlen_def by (simp flip: take_drop_cstr(1) add: take_drop_cstr)
  have l: "c_strlen (drop 18 (topic_utf8 pub)) = length (suffix_of pub)" by (simp add: c_strlen_def suffix_of_def)
  show ?thesis
    unfolding mqtt_command_handler_def prefix_facts prefix_test Let_def prod.case l
    using t
    by (simp add: l parsed_command_def addressed_def zero_Command_def case_prod_unfold split: option.split)
qed

lemma suffix_NUL [simp]: "NUL \<notin> set (suffix_of pub)"
  by (simp add: suffix_of_def)

lemma parsed_command_facts:
  assumes "json_in_place J" and "length (suffix_of pub) < 48" and "length (payload_data pub) < 256"
  defines "c \<equiv> snd (parsed_command J pub)"
  shows "length (cmd_key c) = 48" and "cstr (cmd_key c) = suffix_of pub" and "length (cmd_payload c) = 256"
    and "cmd_response_topic c = replicate 64 NUL" and "cmd_correlation_data c = replicate 16 0"
    and "cmd_corr_len c = 0" and "cmd_payload_len c = 0"
    and "fst (parsed_command J pub) \<in> {None, Some GET, Some SET}"
proof -
  let ?pl = "mem_write (replicate 256 NUL) (payload_data pub @ [NUL])"
  have "length (cstr ?pl) \<le> 256" using length_cstr_le [of ?pl] assms(3) by simp
  then show "length (cmd_payload c) = 256"
    using assms(1,3) by (simp add: c_def parsed_command_def parse_msg_type_from_payload_def case_prod_unfold Let_def
        json_in_place_def MAX_PAYLOAD_LEN_def)
  show "fst (parsed_command J pub) \<in> {None, Some GET, Some SET}"
    by (simp add: parsed_command_def parse_msg_type_from_payload_def case_prod_unfold Let_def)
  show "length (cmd_key c) = 48" "cstr (cmd_key c) = suffix_of pub"
    using assms(2) by (simp_all add: c_def parsed_command_def case_prod_unfold Let_def MAX_KEY_LEN_def cstr_mem_write)
qed (simp_all add: c_def parsed_command_def case_prod_unfold Let_def zero_Command_def tib_defs)

text \<open>A queued command is the message it came from: its key, its response topic and its correlation data.\<close>

definition command_of :: "mqtt_message \<Rightarrow> Command \<Rightarrow> bool" where
  "command_of pub c \<longleftrightarrow> queued_ok c \<and> cstr (cmd_key c) = suffix_of pub \<and>
     (\<exists>rt. response_utf8 pub = Some rt \<and> length rt < MAX_TOPIC_LEN \<and> cstr (cmd_response_topic c) = cstr rt) \<and>
     (if 0 < length (correlation pub) \<and> length (correlation pub) < MAX_CORRELATION_DATA
      then cmd_corr_len c = length (correlation pub) \<and> take (cmd_corr_len c) (cmd_correlation_data c) = correlation pub
      else cmd_corr_len c = 0)"

lemma cstr_terminated [simp]: "cstr (rt @ NUL # buf) = cstr rt"
  by (induction rt) (auto simp: cstr_def)

lemma addressed_command_of:
  assumes "json_in_place J" and "suffix_of pub \<noteq> []" and "length (suffix_of pub) < 48" and "length (payload_data pub) < 256"
    and "fst (parsed_command J pub) = Some t" and "response_utf8 pub = Some rt" and "length rt < 64"
  shows "command_of pub (addressed pub t rt (snd (parsed_command J pub)))"
  using parsed_command_facts [OF assms(1,3,4)] assms(2,3,5-7)
  by (auto simp: command_of_def queued_ok_def command_wf_def addressed_def with_correlation_def c_strlen_def
      mem_write_def tib_defs)

lemma callback_cases:
  assumes "json_in_place J"
  shows "mqtt_command_handler J I Q pub (inq, outq) = (inq, outq) \<and> (\<not> accepted_prefix pub \<or> MAX_PAYLOAD_LEN \<le> length (payload_data pub)) \<or>
    (\<exists>c. mqtt_command_handler J I Q pub (inq, outq) = (inq, snd (q_put Q outq (invalid_command_response c))) \<and>
       cstr (out_topic (invalid_command_response c)) = default_topic \<and> out_corr_len (invalid_command_response c) = 0 \<and>
       out_msg_wf (invalid_command_response c)) \<or>
    (\<exists>c. command_of pub c \<and>
       mqtt_command_handler J I Q pub (inq, outq) =
         (if fst (q_put I inq c) = 0 then (snd (q_put I inq c), outq)
          else (snd (q_put I inq c), snd (q_put Q outq (busy_response c)))))"
proof -
  have invalid: "cstr (out_topic (invalid_command_response c)) = default_topic \<and> out_corr_len (invalid_command_response c) = 0 \<and>
       out_msg_wf (invalid_command_response c)"
    if "command_wf c" "cstr (cmd_response_topic c) = []" "cmd_corr_len c = 0" for c
  proof -
    have "answers c (invalid_command_response c)"
      unfolding invalid_command_response_def
      by (rule msg_builder_answers [OF that(1)]) (simp_all add: json_error_short)
    moreover have "out_corr_len (invalid_command_response c) = 0"
      using that by (simp add: invalid_command_response_def msg_builder_corr(2) command_wf_def tib_defs)
    ultimately show ?thesis using that(2) by (simp add: answers_def c_strlen_def)
  qed
  have zero: "command_wf zero_Command" "cstr (cmd_response_topic zero_Command) = []" "cmd_corr_len zero_Command = 0"
    by (simp_all add: zero_Command_def command_wf_def)
  have parsed: "command_wf c" "cstr (cmd_response_topic c) = []" "cmd_corr_len c = 0"
    if "c = snd (parsed_command J pub) \<or> c = (snd (parsed_command J pub))\<lparr>cmd_msg_type := t\<rparr>"
      "length (suffix_of pub) < 48" "length (payload_data pub) < 256" for c t
    using parsed_command_facts [OF assms that(2,3)] that(1) by (auto simp: command_wf_def tib_defs)
  show ?thesis
  proof (cases "\<not> accepted_prefix pub \<or> suffix_of pub = [] \<or> 48 \<le> length (suffix_of pub) \<or> 256 \<le> length (payload_data pub)")
    case True
    then show ?thesis using invalid [OF zero] unfolding handler_cases by (auto simp: tib_defs Let_def)
  next
    case False
    then have l: "accepted_prefix pub" "suffix_of pub \<noteq> []" "length (suffix_of pub) < 48" "length (payload_data pub) < 256" by auto
    have run: "mqtt_command_handler J I Q pub (inq, outq) =
      (let refuse = (\<lambda>cmd. (inq, snd (q_put Q outq (invalid_command_response cmd)))) in
       case fst (parsed_command J pub) of
            None \<Rightarrow> refuse (snd (parsed_command J pub))
          | Some t \<Rightarrow>
              (case response_utf8 pub of
                 None \<Rightarrow> refuse ((snd (parsed_command J pub))\<lparr>cmd_msg_type := t\<rparr>)
               | Some rt \<Rightarrow>
                   (if \<not> length rt < 64 then refuse ((snd (parsed_command J pub))\<lparr>cmd_msg_type := t\<rparr>)
                    else let cmd = addressed pub t rt (snd (parsed_command J pub))
                         in if fst (q_put I inq cmd) \<noteq> 0
                            then (snd (q_put I inq cmd), snd (q_put Q outq (busy_response cmd)))
                            else (snd (q_put I inq cmd), outq))))"
      unfolding handler_cases MAX_TOPIC_LEN_def MAX_KEY_LEN_def MAX_PAYLOAD_LEN_def using l by simp
    show ?thesis
    proof (cases "\<exists>t rt. fst (parsed_command J pub) = Some t \<and> response_utf8 pub = Some rt \<and> length rt < 64")
      case True
      then obtain t rt where t: "fst (parsed_command J pub) = Some t" "response_utf8 pub = Some rt" "length rt < 64" by blast
      from addressed_command_of [OF assms l(2-4) t] t show ?thesis
        unfolding run by (intro disjI2 exI [of _ "addressed pub t rt (snd (parsed_command J pub))"]) (auto simp: Let_def)
    next
      case no: False
      then have "\<exists>c t. (c = snd (parsed_command J pub) \<or> c = (snd (parsed_command J pub))\<lparr>cmd_msg_type := t\<rparr>) \<and>
          mqtt_command_handler J I Q pub (inq, outq) = (inq, snd (q_put Q outq (invalid_command_response c)))"
        unfolding run Let_def by (auto split: option.split)
      then obtain c t where c: "c = snd (parsed_command J pub) \<or> c = (snd (parsed_command J pub))\<lparr>cmd_msg_type := t\<rparr>"
        "mqtt_command_handler J I Q pub (inq, outq) = (inq, snd (q_put Q outq (invalid_command_response c)))" by blast
      with invalid [OF parsed [OF c(1) l(3,4)]] show ?thesis by blast
    qed
  qed
qed


text \<open>A request for the status, and a JSON library that reads \<open>get\<close> and rejects everything else.\<close>

definition status_request :: mqtt_message where
  "status_request = \<lparr>topic_utf8 = ''cmd/hsfib-tib/req/status'', payload_data = ''{}'', response_utf8 = Some ''me'',
     correlation = [7, 8]\<rparr>"

definition get_json :: json_lib where
  "get_json = (route_json_lib [] [])\<lparr>json_msg_type := \<lambda>t. (1, t, ''get''), json_route_id := \<lambda>_. (- 22, [], [])\<rparr>"

lemma get_json_in_place: "json_in_place get_json"
  by (simp add: json_in_place_def get_json_def)


lemma status_request_queued:
  "\<exists>c. mqtt_command_handler get_json (list_msgq 2) (list_msgq 8) status_request ([], []) = ([c], [])"
proof -
  have "length (fst (mqtt_command_handler get_json (list_msgq 2) (list_msgq 8) status_request ([], []))) = 1"
    "snd (mqtt_command_handler get_json (list_msgq 2) (list_msgq 8) status_request ([], [])) = []"
    by code_simp+
  then show ?thesis
    by (cases "mqtt_command_handler get_json (list_msgq 2) (list_msgq 8) status_request ([], [])")
       (auto simp: length_Suc_conv)
qed

section \<open>The threads one by one\<close>

text \<open>
  The forwarding work item empties the samples' queue: as many samples as the outbound queue has room
  for follow what is already there, oldest first, and the rest are dropped.
\<close>

lemma forward_samples_ends:
  assumes P: "msgq_laws P cp pdepth" and Q: "msgq_laws Q co odepth"
  shows "\<exists>pq' oq'. forward_samples P Q pq oq = Some (pq', oq') \<and> cp pq' = [] \<and>
     co oq' = co oq @ take (odepth - length (co oq)) (cp pq)"
proof (induction "cp pq" arbitrary: pq oq)
  case Nil
  then show ?case
    using msgq_get_empty [OF P, of pq] by (subst forward_samples.simps) simp
next
  case (Cons m ms)
  obtain p1 where p1: "q_get P pq = Some (m, p1)" "cp p1 = ms"
    using msgq_get_Cons [OF P Cons.hyps(2) [symmetric]] by blast
  let ?o1 = "snd (q_put Q oq m)"
  have run: "forward_samples P Q pq oq = forward_samples P Q p1 ?o1"
    using p1(1) by (subst forward_samples.simps) (simp add: case_prod_unfold Let_def)
  have "co ?o1 @ take (odepth - length (co ?o1)) ms = co oq @ take (odepth - length (co oq)) (m # ms)"
    using msgq_put_iff(2) [OF Q, of oq m] by (cases "odepth - length (co oq)") (auto simp: diff_Suc split: nat.splits)
  with Cons.hyps(1) [of p1 ?o1] p1(2) show ?case
    unfolding run by (simp add: Cons.hyps(2) [symmetric])
qed

section \<open>The invariant of the system\<close>

definition app_inv ::
  "('i \<Rightarrow> Command list) \<Rightarrow> ('o \<Rightarrow> OutMsg list) \<Rightarrow> ('p \<Rightarrow> OutMsg list) \<Rightarrow> ('i, 'o, 'p) app \<Rightarrow> bool" where
  "app_inv ci co cp s \<longleftrightarrow>
     tib_inv (app_tib s) \<and> list_all queued_ok (ci (inbound s)) \<and> list_all out_msg_wf (co (outbound s)) \<and>
     list_all out_msg_wf (cp (samples s)) \<and> (\<forall>om. executing s = Some om \<longrightarrow> out_msg_wf om) \<and>
     list_all (\<lambda>p. c_strlen (par_topic p) = par_topic_size p \<and> par_topic_size p < MAX_TOPIC_LEN \<and>
                   c_strlen (par_payload p) = par_payload_len p \<and> par_payload_len p < MAX_PAYLOAD_LEN \<and>
                   par_correlation_len p < MAX_CORRELATION_DATA) (published s)"

lemma busy_wf: "command_wf c \<Longrightarrow> out_msg_wf (busy_response c)"
  using msg_builder_answers [of c "json_error ''busy''" RESP_ERROR]
  by (simp add: busy_response_def json_error_short answers_def)

lemma command_of_queued: "command_of pub c \<Longrightarrow> queued_ok c \<and> command_wf c"
  by (simp add: command_of_def queued_ok_def)

lemma put_all:
  assumes "msgq_laws Q contents depth" and "list_all g (contents q)" and "g m"
  shows "list_all g (contents (snd (q_put Q q m)))"
  using assms by (simp add: msgq_put_iff(2) [OF assms(1)])

lemma receive_inv:
  assumes laws: "msgq_laws I ci idepth" "msgq_laws Q co odepth" and J: "json_in_place J"
    and inq: "list_all queued_ok (ci inq)" and outq: "list_all out_msg_wf (co outq)"
    and run: "mqtt_command_handler J I Q pub (inq, outq) = (inq', outq')"
  shows "list_all queued_ok (ci inq')" and "list_all out_msg_wf (co outq')"
proof -
  from callback_cases [OF J, of I Q pub inq outq]
  have "list_all queued_ok (ci inq') \<and> list_all out_msg_wf (co outq')"
  proof (elim disjE exE conjE)
    fix c
    assume "command_of pub c"
      and "mqtt_command_handler J I Q pub (inq, outq) =
         (if fst (q_put I inq c) = 0 then (snd (q_put I inq c), outq)
          else (snd (q_put I inq c), snd (q_put Q outq (busy_response c))))"
    with command_of_queued [of pub c] run show ?thesis
      using put_all [OF laws(1) inq, of c] put_all [OF laws(2) outq, of "busy_response c"] outq busy_wf [of c]
      by (auto split: if_splits)
  next
    fix c
    assume "mqtt_command_handler J I Q pub (inq, outq) = (inq, snd (q_put Q outq (invalid_command_response c)))"
      and "out_msg_wf (invalid_command_response c)"
    then show ?thesis
      using run put_all [OF laws(2) outq, of "invalid_command_response c"] inq by simp
  qed (use run inq outq in simp_all)
  then show "list_all queued_ok (ci inq')" "list_all out_msg_wf (co outq')" by simp_all
qed

lemma executor_inv:
  assumes laws: "msgq_laws I ci idepth" "msgq_laws Q co odepth" and inv: "app_inv ci co cp s"
    and run: "executor_step R I Q s = Some s'"
  shows "app_inv ci co cp s'"
proof (cases "executing s")
  case None
  show ?thesis
  proof (cases "q_get I (inbound s)")
    case (Some r)
    then obtain c inq where r: "q_get I (inbound s) = Some (c, inq)" by (cases r) auto
    have q: "ci (inbound s) = c # ci inq" by (rule msgq_get_Some [OF laws(1) r])
    then have wf: "command_wf c" using inv by (simp add: app_inv_def queued_ok_def)
    have ti: "tib_inv (app_tib s)" using inv by (simp add: app_inv_def)
    obtain om t where d: "dispatch_command R c (app_tib s) = Some (om, t)"
      using run None r by (auto simp: executor_step_def split: option.splits)
    from dispatch.contract [OF ti wf d] have "tib_inv t" "out_msg_wf om" by (simp_all add: answers_def)
    then show ?thesis using run None r d q inv by (auto simp: executor_step_def app_inv_def)
  qed (use run None inv in \<open>simp add: executor_step_def\<close>)
next
  case (Some om)
  have "list_all out_msg_wf (co (snd (q_put Q (outbound s) om)))"
    using inv Some by (intro put_all [OF laws(2)]) (simp_all add: app_inv_def)
  then show ?thesis
    using run Some inv by (auto simp: executor_step_def case_prod_unfold Let_def app_inv_def split: if_splits)
qed

lemma publish_param_ok:
  "out_msg_wf om \<Longrightarrow> c_strlen (par_topic (publish_param om i)) = par_topic_size (publish_param om i) \<and>
     par_topic_size (publish_param om i) < MAX_TOPIC_LEN \<and>
     c_strlen (par_payload (publish_param om i)) = par_payload_len (publish_param om i) \<and>
     par_payload_len (publish_param om i) < MAX_PAYLOAD_LEN \<and>
     par_correlation_len (publish_param om i) < MAX_CORRELATION_DATA"
  by (simp add: publish_param_def out_msg_wf_def)

lemma app_step_inv:
  assumes laws: "msgq_laws I ci idepth" "msgq_laws Q co odepth" "msgq_laws P cp pdepth" and J: "json_in_place J"
    and pd: "0 < pdepth" and inv: "app_inv ci co cp s" and st: "app_step J I Q P s s'"
  shows "app_inv ci co cp s'"
  using st
proof cases
  case (receive pub inq outq)
  then show ?thesis
    using receive_inv [OF laws(1,2) J _ _ receive(2)] inv by (simp add: app_inv_def)
next
  case (execute R)
  then show ?thesis using executor_inv [OF laws(1,2) inv] by blast
next
  case (sample a pq slept)
  let ?m = "photodiode_message (sample_channel (yj_setup_rc a) (yj_read a)) (sample_channel (hk_setup_rc a) (hk_read a)) (ts_sec a)"
  have "enqueue_purging P (samples s) ?m = Some pq"
    using sample(2) by (auto simp: photodiode_round_def Let_def split: option.splits if_splits)
  with enqueue_purging_ends [OF laws(3) pd, of "samples s" ?m]
  have "cp pq = (if length (cp (samples s)) < pdepth then cp (samples s) @ [?m] else [?m])" by auto
  then have "list_all out_msg_wf (cp pq)"
    using inv photodiode_message_facts(3) by (simp add: app_inv_def)
  then show ?thesis using inv sample(1) by (simp add: app_inv_def)
next
  case (forward pq outq)
  with forward_samples_ends [OF laws(3,2), of "samples s" "outbound s"]
  have "cp pq = []" "co outq = co (outbound s) @ take (odepth - length (co (outbound s))) (cp (samples s))" by auto
  then show ?thesis
    using inv forward(1) by (auto simp: app_inv_def list_all_iff dest: in_set_takeD)
next
  case (publish om outq)
  have "co (outbound s) = om # co outq" by (rule msgq_get_Some [OF laws(2) publish(2)])
  then show ?thesis
    using inv publish(1) publish_param_ok [of om "msg_id s"] by (simp add: app_inv_def)
qed

lemma app_reachable_inv:
  assumes "app_reachable J I Q P s0 s" and "app_inv ci co cp s0"
    and "msgq_laws I ci idepth" "msgq_laws Q co odepth" "msgq_laws P cp pdepth" "json_in_place J" "0 < pdepth"
  shows "app_inv ci co cp s"
  using assms by (induction rule: app_reachable.induct) (blast intro: app_step_inv)+

lemma app_start_inv:
  assumes "app_start B inq outq pq = Some s0" and "expander_ready B" and "ci inq = []" "co outq = []" "cp pq = []"
  shows "app_inv ci co cp s0"
proof -
  let ?h = "snd (devices_ready B [])"
  have "boot B = Some (booted ?h)"
    using setup_eval [OF assms(2), of ?h] by (simp add: boot_def case_prod_unfold)
  with assms(1) booted_inv [OF boot_latched, of B] assms(3-5) show ?thesis
    by (auto simp: app_start_def app_inv_def)
qed

text \<open>
  In every state the application can reach, however its threads interleave and whatever the drivers,
  the JSON library, the ADC and the senders do: the box keeps its invariant, every queued command is well
  formed, every queued message is terminated inside its arrays, and what has been handed to
  \<open>mqtt_publish\<close> has lengths that stay inside the arrays they belong to.
\<close>

theorem app_invariant:
  assumes "app_start B inq outq pq = Some s0" and "expander_ready B" and "ci inq = []" "co outq = []" "cp pq = []"
    and "msgq_laws I ci idepth" and "msgq_laws Q co odepth" and "msgq_laws P cp pdepth" and "0 < pdepth"
    and "json_in_place J" and "app_reachable J I Q P s0 s"
  shows "app_inv ci co cp s"
  by (rule app_reachable_inv [OF assms(11) app_start_inv [where ci = ci and co = co and cp = cp, OF assms(1-5)] assms(6-8,10,9)])

theorem app_invariant_witness:
  "\<exists>s0 s. app_start quiet_platform [] [] [] = Some s0 \<and>
     app_step get_json (list_msgq 2) (list_msgq 8) (list_msgq 4) s0 s \<and> length (inbound s) = 1 \<and>
     app_inv (\<lambda>q. q) (\<lambda>q. q) (\<lambda>q. q) s"
proof -
  have "expander_ready quiet_platform" by (simp add: quiet_platform_def)
  from setup_eval [OF this] obtain s0 where s0: "app_start quiet_platform [] [] [] = Some s0"
    "inbound s0 = ([] :: Command list)" "outbound s0 = ([] :: OutMsg list)" "samples s0 = ([] :: OutMsg list)"
    by (auto simp: app_start_def boot_def case_prod_unfold)
  obtain c where c: "mqtt_command_handler get_json (list_msgq 2) (list_msgq 8) status_request ([], []) = ([c], [])"
    using status_request_queued by blast
  let ?s = "s0\<lparr>inbound := [c], outbound := []\<rparr>"
  have st: "app_step get_json (list_msgq 2) (list_msgq 8) (list_msgq 4) s0 ?s"
    using app_step.receive [of get_json "list_msgq 2" "list_msgq 8" status_request s0 "[c]" "[]" "list_msgq 4"] c s0 by simp
  have "app_inv (\<lambda>q. q) (\<lambda>q. q) (\<lambda>q. q) ?s"
    by (rule app_invariant [OF s0(1) \<open>expander_ready quiet_platform\<close> refl refl refl list_msgq_laws list_msgq_laws list_msgq_laws _
          get_json_in_place app_reachable.step [OF app_reachable.start st]]) simp
  with s0(1) st show ?thesis by (intro exI conjI) auto
qed

section \<open>No command acts\<close>

text \<open>
  The documented behaviour of the JSON library on an empty text: it is rejected, whatever the descriptor.
\<close>

definition json_rejects_empty :: "json_lib \<Rightarrow> bool" where
  "json_rejects_empty J \<longleftrightarrow>
     fst (json_route_id J []) < 0 \<and> fst (json_value_string J []) < 0 \<and> fst (json_value_uint16 J []) < 0 \<and>
     fst (json_value_float J []) < 0 \<and> fst (json_value_bool J []) < 0 \<and> fst (json_coeffs J []) < 0"

lemma set_commands_fail:
  assumes "json_rejects_empty (json R)" and "cmd_payload_len c = 0" and "cmd_msg_type c = SET"
  shows "\<exists>e. dispatch_command R c s = reply c RESP_ERROR e s"
proof -
  have b: "slash \<notin> set (cstr (cmd_key c))" if "cstr (cmd_key c) \<in> {''mems'', ''laser'', ''atten''}"
    using that by auto
  have r: "\<exists>e. memsroute_set R c s = reply c RESP_ERROR e s" "\<exists>e. power_set R c s = reply c RESP_ERROR e s"
    "\<exists>e. sleep_set R c s = reply c RESP_ERROR e s"
    using assms(1,2)
    by (auto simp: json_rejects_empty_def memsroute_set_def power_set_def sleep_set_def case_prod_unfold)
  have u: "Some (unknown_response c, s) = reply c RESP_ERROR (json_error ''Unknown request'') s"
    "Some (unsupported_response c, s) = reply c RESP_ERROR (json_error ''Unsupported operation'') s"
    by (simp_all add: unknown_response_def unsupported_response_def reply_def)
  consider "cstr (cmd_key c) \<in> {''mems'', ''laser'', ''atten''}" | "cstr (cmd_key c) \<in> {''memsroute'', ''power'', ''sleep''}"
    | "cstr (cmd_key c) \<notin> {''mems'', ''laser'', ''atten'', ''memsroute'', ''power'', ''sleep''}" by blast
  then show ?thesis
  proof cases
    case 1
    with b bare_keys_refused [of c R s] assms(3) show ?thesis unfolding dispatch_cases by auto
  next
    case 2
    with r assms(3) show ?thesis unfolding dispatch_cases by auto
  next
    case 3
    with u assms(3) show ?thesis unfolding dispatch_cases by auto
  qed
qed

lemma get_commands_observe:
  assumes "cmd_msg_type c \<noteq> SET"
  shows "\<exists>m n. dispatch_command R c s = Some (m, s\<lparr>history := history s @ replicate n Power_get\<rparr>)"
proof -
  have b: "slash \<notin> set (cstr (cmd_key c))" if "cstr (cmd_key c) \<in> {''mems'', ''laser'', ''atten''}"
    using that by auto
  have same: "\<exists>m n. Some (m', s) = Some (m, s\<lparr>history := history s @ replicate n Power_get\<rparr>)" for m'
    by (intro exI [of _ m'] exI [of _ 0]) simp
  have p: "\<exists>m n. reply c t e (s\<lparr>history := history s @ [Power_get]\<rparr>) = Some (m, s\<lparr>history := history s @ replicate n Power_get\<rparr>)" for t e
    by (intro exI exI [of _ 1]) (simp add: reply_def)
  have r: "\<exists>m n. power_get R c s = Some (m, s\<lparr>history := history s @ replicate n Power_get\<rparr>)"
    "\<exists>m n. status_get R c s = Some (m, s\<lparr>history := history s @ replicate n Power_get\<rparr>)"
    "\<exists>m n. memsroute_get R c s = Some (m, s\<lparr>history := history s @ replicate n Power_get\<rparr>)"
    using p same by (simp_all add: power_get_def status_get_def case_prod_unfold Let_def power_enabled_history
        memsroute_get_text reply_def)
  consider "cstr (cmd_key c) \<in> {''mems'', ''laser'', ''atten''}" | "cstr (cmd_key c) \<in> {''memsroute'', ''power'', ''status''}"
    | "cstr (cmd_key c) \<notin> {''mems'', ''laser'', ''atten'', ''memsroute'', ''power'', ''status''}" by blast
  then show ?thesis
  proof cases
    case 1
    with b bare_keys_refused [of c R s] assms same show ?thesis unfolding dispatch_cases reply_def by auto
  next
    case 2
    with r assms show ?thesis unfolding dispatch_cases by auto
  next
    case 3
    with same assms show ?thesis unfolding dispatch_cases by auto
  qed
qed

text \<open>
  The callback never sets the payload length of a command, so the handlers hand an empty text to the
  JSON library. Whatever is sent, the reply to a \<open>set\<close> command is an error and nothing in the box changes.
\<close>

theorem every_set_command_fails:
  assumes "command_of pub c" and "cmd_msg_type c = SET" and "json_rejects_empty (json R)"
  shows "\<exists>m. dispatch_command R c s = Some (m, s) \<and> out_msg_type m = RESP_ERROR"
  using set_commands_fail [OF assms(3) _ assms(2), of s] assms(1)
  by (auto simp: reply_def command_of_def queued_ok_def)

section \<open>Commands only observe\<close>

text \<open>A \<open>set\<close> request and a library that reads it and rejects everything else.\<close>

definition set_request :: mqtt_message where
  "set_request = \<lparr>topic_utf8 = ''cmd/hsfib-tib/req/power'', payload_data = ''{}'', response_utf8 = Some ''me'', correlation = []\<rparr>"

definition set_json :: json_lib where
  "set_json = get_json\<lparr>json_msg_type := \<lambda>t. (1, t, ''set'')\<rparr>"

lemma set_json_facts: "json_in_place set_json" "json_rejects_empty set_json"
  by (simp_all add: json_in_place_def json_rejects_empty_def set_json_def get_json_def route_json_lib_def)

lemma set_request_queued:
  "\<exists>c. mqtt_command_handler set_json (list_msgq 2) (list_msgq 8) set_request ([], []) = ([c], []) \<and>
     command_of set_request c \<and> cmd_msg_type c = SET"
proof -
  have f: "accepted_prefix set_request" "\<not> MAX_PAYLOAD_LEN \<le> length (payload_data set_request)"
    "snd (mqtt_command_handler set_json (list_msgq 2) (list_msgq 8) set_request ([], [])) = []"
    "map cmd_msg_type (fst (mqtt_command_handler set_json (list_msgq 2) (list_msgq 8) set_request ([], []))) = [SET]"
    by code_simp+
  then show ?thesis
    using callback_cases [OF set_json_facts(1), of "list_msgq 2" "list_msgq 8" set_request "[]" "[]"]
    by (auto simp: list_msgq_def)
qed

theorem every_set_command_fails_witness:
  "\<exists>c m. command_of set_request c \<and> cmd_msg_type c = SET \<and>
     dispatch_command (sample_runtime set_json) c (booted []) = Some (m, booted []) \<and> out_msg_type m = RESP_ERROR"
proof -
  obtain c where c: "command_of set_request c" "cmd_msg_type c = SET" using set_request_queued by blast
  have "json_rejects_empty (json (sample_runtime set_json))" using set_json_facts by (simp add: sample_runtime_def)
  from every_set_command_fails [OF c this, of "booted []"] c show ?thesis by blast
qed

text \<open>Only the power pins have been read since.\<close>

definition only_observed :: "tib \<Rightarrow> tib \<Rightarrow> bool" where
  "only_observed t t' \<longleftrightarrow> (\<exists>n. t' = t\<lparr>history := history t @ replicate n Power_get\<rparr>)"

lemma only_observed_refl [simp]: "only_observed t t"
  by (auto simp: only_observed_def intro: exI [of _ 0])

lemma only_observed_trans: "only_observed t t' \<Longrightarrow> only_observed t' t'' \<Longrightarrow> only_observed t t''"
  by (auto simp: only_observed_def simp flip: replicate_add)

lemma dispatch_only_observes:
  assumes "queued_ok c" and "json_rejects_empty (json R)" and "dispatch_command R c t = Some (om, t')"
  shows "only_observed t t'"
proof (cases "cmd_msg_type c = SET")
  case True
  with set_commands_fail [OF assms(2) _ True, of t] assms(1,3) have "t' = t" by (auto simp: queued_ok_def reply_def)
  then show ?thesis by simp
next
  case False
  with get_commands_observe [OF False, of R t] assms(3) show ?thesis by (auto simp: only_observed_def)
qed

lemma step_only_observes:
  assumes I: "msgq_laws I ci idepth" and q: "list_all queued_ok (ci (inbound s))" and J: "json_rejects_empty J"
    and step: "app_step J I Q P s s'"
  shows "only_observed (app_tib s) (app_tib s')"
  using step
proof cases
  case (execute R)
  show ?thesis
  proof (cases "\<exists>c inq. executing s = None \<and> q_get I (inbound s) = Some (c, inq)")
    case True
    then obtain c inq where r: "executing s = None" "q_get I (inbound s) = Some (c, inq)" by blast
    have "queued_ok c" using msgq_get_Some [OF I r(2)] q by simp
    moreover obtain om t where "dispatch_command R c (app_tib s) = Some (om, t)" "app_tib s' = t"
      using execute r by (auto simp: executor_step_def split: option.splits)
    ultimately show ?thesis using dispatch_only_observes J execute by blast
  next
    case False
    with execute have "app_tib s' = app_tib s"
      by (auto simp: executor_step_def case_prod_unfold Let_def split: option.splits if_splits)
    then show ?thesis by simp
  qed
qed simp_all

lemma reachable_only_observed:
  assumes "app_reachable J I Q P s0 s" and "app_inv ci co cp s0"
    and "msgq_laws I ci idepth" "msgq_laws Q co odepth" "msgq_laws P cp pdepth" "json_in_place J" "0 < pdepth"
    and "json_rejects_empty J"
  shows "only_observed (app_tib s0) (app_tib s)"
  using assms(1)
proof induction
  case (step s s')
  have "list_all queued_ok (ci (inbound s))"
    using app_reachable_inv [OF step.hyps(1) assms(2-7)] by (simp add: app_inv_def)
  from step_only_observes [OF assms(3) this assms(8) step.hyps(2)] step.IH show ?case
    by (rule only_observed_trans [rotated])
qed simp

text \<open>
  C27: no message a client can send changes anything. In every state the running application can reach,
  the routes, the switches, the attenuators and the drivers' state are those of the start, and the only
  hardware accesses since are reads of the power pins.
\<close>

theorem commands_never_act:
  assumes "app_start B inq outq pq = Some s0" and "expander_ready B" and "ci inq = []" "co outq = []" "cp pq = []"
    and "msgq_laws I ci idepth" and "msgq_laws Q co odepth" and "msgq_laws P cp pdepth" and "0 < pdepth"
    and "json_in_place J" and "json_rejects_empty J" and "app_reachable J I Q P s0 s"
  shows "\<exists>n. app_tib s = (app_tib s0)\<lparr>history := history (app_tib s0) @ replicate n Power_get\<rparr>"
  using reachable_only_observed [OF assms(12) app_start_inv [where ci = ci and co = co and cp = cp, OF assms(1-5)] assms(6-8,10,9,11)]
  by (simp add: only_observed_def)

theorem commands_never_act_witness:
  "\<exists>s0 s s' n. app_start quiet_platform [] [] [] = Some s0 \<and>
     app_step set_json (list_msgq 2) (list_msgq 8) (list_msgq 4) s0 s \<and> map cmd_msg_type (inbound s) = [SET] \<and>
     app_step set_json (list_msgq 2) (list_msgq 8) (list_msgq 4) s s' \<and> inbound s' = [] \<and> executing s' \<noteq> None \<and>
     app_tib s' = (app_tib s0)\<lparr>history := history (app_tib s0) @ replicate n Power_get\<rparr>"
proof -
  have ready: "expander_ready quiet_platform" by (simp add: quiet_platform_def)
  from setup_eval [OF this] obtain s0 where s0: "app_start quiet_platform [] [] [] = Some s0" "executing s0 = None"
    "inbound s0 = ([] :: Command list)" "outbound s0 = ([] :: OutMsg list)" "samples s0 = ([] :: OutMsg list)"
    by (auto simp: app_start_def boot_def case_prod_unfold)
  obtain c where c: "mqtt_command_handler set_json (list_msgq 2) (list_msgq 8) set_request ([], []) = ([c], [])"
    "command_of set_request c" "cmd_msg_type c = SET" using set_request_queued by blast
  let ?R = "sample_runtime set_json"
  let ?s = "s0\<lparr>inbound := [c], outbound := []\<rparr>"
  have one: "app_step set_json (list_msgq 2) (list_msgq 8) (list_msgq 4) s0 ?s"
    using app_step.receive [of set_json "list_msgq 2" "list_msgq 8" set_request s0 "[c]" "[]" "list_msgq 4"] c s0 by simp
  have J: "json ?R = set_json" by (simp add: sample_runtime_def)
  have "cmd_payload_len c = 0" using c(2) by (simp add: command_of_def queued_ok_def)
  with set_commands_fail [of ?R c "app_tib s0"] set_json_facts(2) c(3) J
  obtain e where "dispatch_command ?R c (app_tib s0) = reply c RESP_ERROR e (app_tib s0)" by auto
  then obtain om where om: "dispatch_command ?R c (app_tib s0) = Some (om, app_tib s0)" by (simp add: reply_def)
  let ?s' = "?s\<lparr>inbound := [], app_tib := app_tib s0, executing := Some om\<rparr>"
  have "executor_step ?R (list_msgq 2) (list_msgq 8) ?s = Some ?s'"
    using om s0 by (simp add: executor_step_def list_msgq_def)
  then have two: "app_step set_json (list_msgq 2) (list_msgq 8) (list_msgq 4) ?s ?s'"
    by (rule app_step.execute [OF J])
  obtain n where "app_tib ?s' = (app_tib s0)\<lparr>history := history (app_tib s0) @ replicate n Power_get\<rparr>"
    using commands_never_act [OF s0(1) ready refl refl refl list_msgq_laws list_msgq_laws list_msgq_laws _
        set_json_facts app_reachable.step [OF app_reachable.step [OF app_reachable.start one] two]] by auto
  with s0(1) one two c(3) show ?thesis by (intro exI [of _ s0] exI [of _ ?s] exI [of _ ?s'] exI [of _ n]) simp
qed

end
