(* ===== verification/App_Flow.thy ===== *)
theory App_Flow
  imports Main_App_Spec "HOL-Library.Sublist"
begin

text \<open>
  What flows through the queues of the application while its threads interleave: every command taken is
  answered once and in order, everything queued is published in order, and whatever waits can always be served.
\<close>

lemma app_reachable_trans: "app_reachable J I Q P t u \<Longrightarrow> app_reachable J I Q P s t \<Longrightarrow> app_reachable J I Q P s u"
  by (induction rule: app_reachable.induct) (auto intro: app_reachable.intros)

lemma app_reachable_step: "app_step J I Q P s t \<Longrightarrow> app_reachable J I Q P s t"
  by (blast intro: app_reachable.intros)

section \<open>What flows through the queues\<close>

definition in_hand :: "('i, 'o, 'p) app \<Rightarrow> OutMsg list" where
  "in_hand s = (case executing s of None \<Rightarrow> [] | Some om \<Rightarrow> [om])"

definition answered_by :: "json_lib \<Rightarrow> Command \<Rightarrow> OutMsg \<Rightarrow> bool" where
  "answered_by J c om \<longleftrightarrow> (\<exists>R t t'. json R = J \<and> dispatch_command R c t = Some (om, t'))"

fun numbered :: "u16 \<Rightarrow> OutMsg list \<Rightarrow> mqtt_param list" where
  "numbered i [] = []"
| "numbered i (om # oms) = publish_param om i # numbered (i + 1) oms"

lemma numbered_append [simp]: "numbered i (xs @ ys) = numbered i xs @ numbered (i + of_nat (length xs)) ys"
  by (induction xs arbitrary: i) (simp_all add: add.assoc)

text \<open>
  Between two states: \<open>entered\<close> entered the outbound queue and \<open>sent\<close> left it, \<open>arrived\<close> entered the inbound queue and
  \<open>taken\<close> left it, \<open>made\<close> are the replies dispatched and \<open>queued\<close> those the executor put in the queue.
\<close>

record flow =
  entered :: "OutMsg list"
  sent :: "OutMsg list"
  arrived :: "Command list"
  taken :: "Command list"
  made :: "OutMsg list"
  queued :: "OutMsg list"

definition flows ::
  "json_lib \<Rightarrow> ('i \<Rightarrow> Command list) \<Rightarrow> ('o \<Rightarrow> OutMsg list) \<Rightarrow> flow \<Rightarrow> ('i, 'o, 'p) app \<Rightarrow> ('i, 'o, 'p) app \<Rightarrow> bool" where
  "flows J ci co w s s' \<longleftrightarrow>
     co (outbound s) @ entered w = sent w @ co (outbound s') \<and>
     published s' = published s @ numbered (msg_id s) (sent w) \<and> msg_id s' = msg_id s + of_nat (length (sent w)) \<and>
     ci (inbound s) @ arrived w = taken w @ ci (inbound s') \<and> list_all (\<lambda>c. \<exists>pub. command_of pub c) (arrived w) \<and>
     in_hand s @ made w = queued w @ in_hand s' \<and> list_all2 (answered_by J) (taken w) (made w) \<and>
     subseq (queued w) (entered w)"

definition still :: flow where
  "still = \<lparr>entered = [], sent = [], arrived = [], taken = [], made = [], queued = []\<rparr>"

definition and_then :: "flow \<Rightarrow> flow \<Rightarrow> flow" where
  "and_then v w = \<lparr>entered = entered v @ entered w, sent = sent v @ sent w, arrived = arrived v @ arrived w, taken = taken v @ taken w,
                   made = made v @ made w, queued = queued v @ queued w\<rparr>"

lemma flows_still: "flows J ci co still s s"
  by (simp add: flows_def still_def)

lemma flows_and_then: 
  assumes "flows J ci co v s t" and "flows J ci co w t u"
  shows "flows J ci co (and_then v w) s u"
proof -
  have "co (outbound s) @ entered v @ entered w = sent v @ sent w @ co (outbound u)"
    "ci (inbound s) @ arrived v @ arrived w = taken v @ taken w @ ci (inbound u)"
    "in_hand s @ made v @ made w = queued v @ queued w @ in_hand u"
    using assms unfolding flows_def by (metis append.assoc)+
  then show ?thesis
    using assms by (simp add: flows_def and_then_def list_all2_appendI list_emb_append_mono)
qed

lemma put_appends:
  assumes "msgq_laws Q co depth"
  obtains xs where "co (snd (q_put Q q m)) = co q @ xs" and "fst (q_put Q q m) = 0 \<longrightarrow> xs = [m]"
  using msgq_put_iff [OF assms, of q m] by (cases "length (co q) < depth") auto

lemma receive_flows:
  assumes I: "msgq_laws I ci idepth" and Q: "msgq_laws Q co odepth" and J: "json_in_place J"
    and run: "mqtt_command_handler J I Q pub (inbound s, outbound s) = (inq, outq)"
  shows "\<exists>w. flows J ci co w s (s\<lparr>inbound := inq, outbound := outq\<rparr>)"
proof -
  have "\<exists>xs cs. co outq = co (outbound s) @ xs \<and> ci inq = ci (inbound s) @ cs \<and> list_all (\<lambda>c. \<exists>pub. command_of pub c) cs"
    using callback_cases [OF J, of I Q pub "inbound s" "outbound s"] unfolding run
  proof (elim disjE exE conjE)
    fix c assume c: "command_of pub c" and r: "(inq, outq) = (if fst (q_put I (inbound s) c) = 0 then (snd (q_put I (inbound s) c), outbound s)
       else (snd (q_put I (inbound s) c), snd (q_put Q (outbound s) (busy_response c))))"
    obtain xs where "co (snd (q_put Q (outbound s) (busy_response c))) = co (outbound s) @ xs"
      using put_appends [OF Q] by metis
    then show ?thesis
      using r c msgq_put_iff [OF I, of "inbound s" c] by (auto split: if_splits)
  next
    fix c assume r: "(inq, outq) = (inbound s, snd (q_put Q (outbound s) (invalid_command_response c)))"
    obtain xs where "co (snd (q_put Q (outbound s) (invalid_command_response c))) = co (outbound s) @ xs"
      using put_appends [OF Q] by metis
    then show ?thesis using r by auto
  qed auto
  then obtain xs cs where "co outq = co (outbound s) @ xs" "ci inq = ci (inbound s) @ cs" "list_all (\<lambda>c. \<exists>pub. command_of pub c) cs"
    by blast
  then have "flows J ci co (still\<lparr>entered := xs, arrived := cs\<rparr>) s (s\<lparr>inbound := inq, outbound := outq\<rparr>)"
    by (simp add: flows_def still_def in_hand_def)
  then show ?thesis by blast
qed

lemma execute_flows:
  assumes I: "msgq_laws I ci idepth" and Q: "msgq_laws Q co odepth" and "json R = J"
    and run: "executor_step R I Q s = Some s'"
  shows "\<exists>w. arrived w = [] \<and> flows J ci co w s s'"
proof (cases "executing s")
  case None
  show ?thesis
  proof (cases "q_get I (inbound s)")
    case (Some r)
    then obtain c inq where r: "q_get I (inbound s) = Some (c, inq)" by (cases r) auto
    then obtain om t where d: "dispatch_command R c (app_tib s) = Some (om, t)"
      "s' = s\<lparr>inbound := inq, app_tib := t, executing := Some om\<rparr>"
      using run None by (auto simp: executor_step_def split: option.splits)
    have "answered_by J c om" using d(1) assms(3) by (auto simp: answered_by_def)
    then have "flows J ci co (still\<lparr>taken := [c], made := [om]\<rparr>) s s'"
      using None d(2) msgq_get_Some [OF I r] by (simp add: flows_def still_def in_hand_def)
    then show ?thesis by (intro exI [of _ "still\<lparr>taken := [c], made := [om]\<rparr>"]) (simp add: still_def)
  next
    case no: None
    with run None have "s' = s" by (simp add: executor_step_def)
    then show ?thesis using flows_still by (intro exI [of _ still]) (simp add: still_def)
  qed
next
  case (Some om)
  show ?thesis
  proof (cases "fst (q_put Q (outbound s) om) = 0")
    case True
    then have s': "s' = s\<lparr>outbound := snd (q_put Q (outbound s) om), executing := None\<rparr>"
      using run Some by (simp add: executor_step_def case_prod_unfold Let_def)
    have "co (outbound s') = co (outbound s) @ [om]"
      using True msgq_put_iff [OF Q, of "outbound s" om] by (simp add: s')
    then have "flows J ci co (still\<lparr>entered := [om], queued := [om]\<rparr>) s s'"
      using Some by (simp add: flows_def still_def in_hand_def s')
    then show ?thesis by (intro exI [of _ "still\<lparr>entered := [om], queued := [om]\<rparr>"]) (simp add: still_def)
  next
    case False
    with run Some have "s' = s" by (simp add: executor_step_def case_prod_unfold Let_def)
    then show ?thesis using flows_still by (intro exI [of _ still]) (simp add: still_def)
  qed
qed

lemma publish_flows:
  assumes Q: "msgq_laws Q co odepth" and "q_get Q (outbound s) = Some (om, outq)"
  shows "flows J ci co (still\<lparr>sent := [om]\<rparr>) s
    (s\<lparr>outbound := outq, msg_id := msg_id s + 1, published := published s @ [publish_param om (msg_id s)]\<rparr>)"
  using msgq_get_Some [OF assms] by (simp add: flows_def still_def in_hand_def)

lemma step_flows:
  assumes I: "msgq_laws I ci idepth" and Q: "msgq_laws Q co odepth" and P: "msgq_laws P cp pdepth" and J: "json_in_place J"
    and st: "app_step J I Q P s s'"
  shows "\<exists>w. flows J ci co w s s'"
  using st
proof cases
  case (receive pub inq outq)
  then show ?thesis using receive_flows [OF I Q J receive(2)] by simp
next
  case (execute R)
  then show ?thesis using execute_flows [OF I Q] by blast
next
  case (sample a pq slept)
  then have "flows J ci co still s s'" by (simp add: flows_def still_def in_hand_def)
  then show ?thesis by blast
next
  case (forward pq outq)
  with forward_samples_ends [OF P Q, of "samples s" "outbound s"]
  have "flows J ci co (still\<lparr>entered := take (odepth - length (co (outbound s))) (cp (samples s))\<rparr>) s s'"
    by (auto simp: flows_def still_def in_hand_def)
  then show ?thesis by blast
next
  case (publish om outq)
  then show ?thesis using publish_flows [OF Q publish(2)] by blast
qed

lemma reachable_flows:
  assumes "app_reachable J I Q P s s'"
    and "msgq_laws I ci idepth" "msgq_laws Q co odepth" "msgq_laws P cp pdepth" "json_in_place J"
  shows "\<exists>w. flows J ci co w s s'"
  using assms(1)
proof induction
  case (step t u)
  with step_flows [OF assms(2-5)] flows_and_then show ?case by metis
qed (blast intro: flows_still)


text \<open>
  Requests are answered, each once and in order. Between any two states of a run, however the threads
  interleave: the commands taken are those that were waiting, then those that came in (each made from a message), first
  in first out; the replies to the commands taken, one each and in that order, are what the executor holds or has put in
  the outbound queue; and what is published is what was in that queue, then what entered it, in order,
  numbered from the current message id.
\<close>

theorem requests_answered_in_order:
  assumes "app_reachable J I Q P s s'"
    and "msgq_laws I ci idepth" "msgq_laws Q co odepth" "msgq_laws P cp pdepth" "json_in_place J"
  shows "\<exists>entered sent arrived taken made queued.
    co (outbound s) @ entered = sent @ co (outbound s') \<and>
    published s' = published s @ numbered (msg_id s) sent \<and>
    ci (inbound s) @ arrived = taken @ ci (inbound s') \<and> list_all (\<lambda>c. \<exists>pub. command_of pub c) arrived \<and>
    list_all2 (answered_by J) taken made \<and> in_hand s @ made = queued @ in_hand s' \<and> subseq queued entered"
  using reachable_flows [OF assms] unfolding flows_def by blast

section \<open>Everything that waits can be served\<close>

text \<open>A run without new messages, with what flowed in it.\<close>

definition serves ::
  "json_lib \<Rightarrow> ('i, Command) msgq \<Rightarrow> ('o, OutMsg) msgq \<Rightarrow> ('p, OutMsg) msgq \<Rightarrow> ('i \<Rightarrow> Command list) \<Rightarrow> ('o \<Rightarrow> OutMsg list) \<Rightarrow>
     ('i, 'o, 'p) app \<Rightarrow> ('i, 'o, 'p) app \<Rightarrow> bool" where
  "serves J I Q P ci co s s' \<longleftrightarrow> app_reachable J I Q P s s' \<and> (\<exists>w. arrived w = [] \<and> flows J ci co w s s')"

lemma servesI: "app_reachable J I Q P s s' \<Longrightarrow> flows J ci co w s s' \<Longrightarrow> arrived w = [] \<Longrightarrow> serves J I Q P ci co s s'"
  unfolding serves_def by blast

lemma serves_refl: "serves J I Q P ci co s s"
  by (rule servesI [OF app_reachable.start flows_still]) (simp add: still_def)

lemma serves_trans:
  assumes "serves J I Q P ci co s t" and "serves J I Q P ci co t u"
  shows "serves J I Q P ci co s u"
proof -
  obtain v w where w: "flows J ci co v s t" "flows J ci co w t u" "arrived v = []" "arrived w = []"
    using assms unfolding serves_def by blast
  have "app_reachable J I Q P s u"
    using assms app_reachable_trans unfolding serves_def by blast
  then show ?thesis
    by (rule servesI [OF _ flows_and_then [OF w(1,2)]]) (simp add: and_then_def w(3,4))
qed

lemma serves_publish:
  assumes "msgq_laws Q co odepth" and "q_get Q (outbound s) = Some (om, outq)"
  shows "serves J I Q P ci co s
    (s\<lparr>outbound := outq, msg_id := msg_id s + 1, published := published s @ [publish_param om (msg_id s)]\<rparr>)"
  by (rule servesI [OF app_reachable_step [OF app_step.publish [OF assms(2)]] publish_flows [OF assms]]) (simp add: still_def)

lemma serves_execute:
  assumes "msgq_laws I ci idepth" and "msgq_laws Q co odepth" and "executor_step (sample_runtime J) I Q s = Some s'"
  shows "serves J I Q P ci co s s'"
proof -
  have J: "json (sample_runtime J) = J" by (simp add: sample_runtime_def)
  show ?thesis
    using execute_flows [OF assms(1,2) J assms(3)] servesI [OF app_reachable_step [OF app_step.execute [OF J assms(3)]]]
    by blast
qed

lemma publish_all:
  assumes Q: "msgq_laws Q co odepth"
  shows "\<exists>s'. serves J I Q P ci co s s' \<and> co (outbound s') = [] \<and> inbound s' = inbound s \<and> executing s' = executing s"
proof (induction "co (outbound s)" arbitrary: s)
  case Nil
  then show ?case by (intro exI [of _ s]) (simp add: serves_refl)
next
  case (Cons om ms)
  obtain q where q: "q_get Q (outbound s) = Some (om, q)" "co q = ms"
    using msgq_get_Cons [OF Q Cons.hyps(2) [symmetric]] by blast
  let ?t = "s\<lparr>outbound := q, msg_id := msg_id s + 1, published := published s @ [publish_param om (msg_id s)]\<rparr>"
  have "serves J I Q P ci co s ?t" by (rule serves_publish [OF Q q(1)])
  moreover obtain s' where "serves J I Q P ci co ?t s'" "co (outbound s') = []" "inbound s' = inbound ?t" "executing s' = executing ?t"
    using Cons.hyps(1) [of ?t] q(2) by auto
  ultimately show ?case by (intro exI [of _ s']) (auto intro: serves_trans)
qed

lemma flush:
  assumes I: "msgq_laws I ci idepth" and Q: "msgq_laws Q co odepth" and od: "0 < odepth"
  shows "\<exists>s'. serves J I Q P ci co s s' \<and> co (outbound s') = [] \<and> inbound s' = inbound s \<and> executing s' = None"
proof -
  obtain t where t: "serves J I Q P ci co s t" "co (outbound t) = []" "inbound t = inbound s" "executing t = executing s"
    using publish_all [OF Q] by blast
  show ?thesis
  proof (cases "executing t")
    case None
    with t show ?thesis by blast
  next
    case (Some om)
    let ?u = "t\<lparr>outbound := snd (q_put Q (outbound t) om), executing := None\<rparr>"
    have "fst (q_put Q (outbound t) om) = 0" using msgq_put_iff(1) [OF Q, of "outbound t" om] t(2) od by simp
    then have "executor_step (sample_runtime J) I Q t = Some ?u"
      using Some by (simp add: executor_step_def case_prod_unfold Let_def)
    then have "serves J I Q P ci co t ?u" by (rule serves_execute [OF I Q])
    moreover obtain s' where "serves J I Q P ci co ?u s'" "co (outbound s') = []" "inbound s' = inbound ?u" "executing s' = executing ?u"
      using publish_all [OF Q] by blast
    ultimately show ?thesis using t by (intro exI [of _ s']) (auto intro: serves_trans)
  qed
qed

lemma serve_all:
  assumes I: "msgq_laws I ci idepth" and Q: "msgq_laws Q co odepth" and od: "0 < odepth"
  shows "\<exists>s'. serves J I Q P ci co s s' \<and> co (outbound s') = [] \<and> ci (inbound s') = [] \<and> executing s' = None"
proof (induction "ci (inbound s)" arbitrary: s)
  case Nil
  with flush [OF I Q od, of J P s] show ?case by metis
next
  case (Cons c cs)
  obtain t where t: "serves J I Q P ci co s t" "inbound t = inbound s" "executing t = None"
    using flush [OF I Q od] by blast
  obtain inq where inq: "q_get I (inbound t) = Some (c, inq)" "ci inq = cs"
    using msgq_get_Cons [OF I, of "inbound t" c cs] Cons.hyps(2) t(2) by auto
  obtain om tb where d: "dispatch_command (sample_runtime J) c (app_tib t) = Some (om, tb)"
    using dispatch_returns by blast
  let ?u = "t\<lparr>inbound := inq, app_tib := tb, executing := Some om\<rparr>"
  have "executor_step (sample_runtime J) I Q t = Some ?u" using t(3) inq(1) d by (simp add: executor_step_def)
  then have "serves J I Q P ci co t ?u" by (rule serves_execute [OF I Q])
  then have "serves J I Q P ci co s ?u" by (rule serves_trans [OF t(1)])
  moreover obtain s' where "serves J I Q P ci co ?u s'" "co (outbound s') = []" "ci (inbound s') = []" "executing s' = None"
    using Cons.hyps(1) [of ?u] inq(2) by auto
  ultimately show ?case by (intro exI [of _ s']) (auto intro: serves_trans)
qed


definition one_request :: "Command \<Rightarrow> (Command list, OutMsg list, OutMsg list) app" where
  "one_request c = \<lparr>app_tib = booted [], inbound = [c], outbound = [], samples = [], executing = None, msg_id = 65535,
                    published = []\<rparr>"

lemma subseq_head: "subseq (x # xs) ys \<Longrightarrow> x \<in> set ys"
  by (induction ys) (auto split: if_splits)

lemma status_command: "\<exists>c. command_of status_request c"
proof -
  have "accepted_prefix status_request" "\<not> MAX_PAYLOAD_LEN \<le> length (payload_data status_request)"
    "snd (mqtt_command_handler get_json (list_msgq 2) (list_msgq 8) status_request ([], [])) = []"
    by code_simp+
  then show ?thesis
    using callback_cases [OF get_json_in_place, of "list_msgq 2" "list_msgq 8" status_request "[]" "[]"]
    by (auto simp: list_msgq_def)
qed


theorem requests_answered_in_order_witness:
  "\<exists>c s' sent om. command_of status_request c \<and>
     app_reachable get_json (list_msgq 2) (list_msgq 8) (list_msgq 4) (one_request c) s' \<and> inbound s' = [] \<and>
     published s' = numbered 65535 sent \<and> answered_by get_json c om \<and> om \<in> set sent"
proof -
  obtain c where c: "command_of status_request c" using status_command by blast
  obtain s' where s': "app_reachable get_json (list_msgq 2) (list_msgq 8) (list_msgq 4) (one_request c) s'"
    "inbound s' = []" "outbound s' = []" "executing s' = None"
    using serve_all [OF list_msgq_laws [of 2] list_msgq_laws [of 8], of get_json "list_msgq 4" "one_request c"]
    unfolding serves_def by auto
  obtain entered arrived taken made queued where f: "[] @ entered = entered" "published s' = numbered 65535 entered"
    "[c] @ arrived = taken" "list_all2 (answered_by get_json) taken made" "made = queued" "subseq queued entered"
    using requests_answered_in_order [OF s'(1) list_msgq_laws list_msgq_laws list_msgq_laws get_json_in_place] s'(2-4)
    by (auto simp: one_request_def in_hand_def)
  then obtain om oms where "made = om # oms" "answered_by get_json c om" by (auto simp: list_all2_Cons1)
  moreover have "om \<in> set entered"
    using f(6) \<open>made = om # oms\<close> unfolding f(5) [symmetric] by (blast dest: subseq_head)
  ultimately show ?thesis using c s' f(2) by blast
qed

end
