(* ===== verification/Network.thy ===== *)
theory Network
  imports TIB_Prelude "HOL-Library.Signed_Division"
begin

text \<open>
  \<open>lib/coo_commons/network.c\<close>: the connection flag and the wait for it, and the socket helpers. The operating
  system is a parameter: it answers the last of a list of calls with a result and, if it sets it, a new
  \<open>errno\<close>. The flag is \<open>volatile\<close> and written by another thread, so a waiting loop sees a sequence of reads.
\<close>

section \<open>Calls\<close>

datatype sock_type = SOCK_STREAM | SOCK_DGRAM
datatype sock_option = SO_REUSEADDR int | SO_RCVTIMEO int int | SO_SNDTIMEO int int

datatype net_call =
    Net_socket sock_type
  | Net_setsockopt int sock_option
  | Net_bind int u16 u32               \<comment> \<open>socket, port in network order, address\<close>
  | Net_listen int int
  | Net_close int
  | Net_connect int string
  | Net_send int string
  | Net_recv int nat
  | Net_sleep nat
  | Net_add_callback "string list"     \<comment> \<open>the events registered for\<close>
  | Net_all_if_up
  | Net_resend_status

type_synonym os = "net_call list \<Rightarrow> int \<times> int option"

record net =
  errno :: int
  net_calls :: "net_call list"

definition sys :: "os \<Rightarrow> net_call \<Rightarrow> net \<Rightarrow> int \<times> net" where
  "sys os c s =
     (let s = s\<lparr>net_calls := net_calls s @ [c]\<rparr>; (rc, e) = os (net_calls s)
      in (rc, s\<lparr>errno := case_option (errno s) id e\<rparr>))"

section \<open>The connection flag\<close>

record 's netmgr =
  network_online :: bool
  user_event_cb :: "(bool \<Rightarrow> 's \<Rightarrow> 's) option"
  net_user :: 's

datatype net_event = NET_EVENT_L4_CONNECTED | NET_EVENT_L4_DISCONNECTED | NET_EVENT_OTHER

definition net_l4_evt_handler :: "net_event \<Rightarrow> 's netmgr \<Rightarrow> 's netmgr" where
  "net_l4_evt_handler mgmt_event s =
     (case mgmt_event of
        NET_EVENT_L4_CONNECTED \<Rightarrow>
          (let s = s\<lparr>network_online := True\<rparr>
           in case user_event_cb s of None \<Rightarrow> s | Some cb \<Rightarrow> s\<lparr>net_user := cb True (net_user s)\<rparr>)
      | NET_EVENT_L4_DISCONNECTED \<Rightarrow>
          (let s = s\<lparr>network_online := False\<rparr>
           in case user_event_cb s of None \<Rightarrow> s | Some cb \<Rightarrow> s\<lparr>net_user := cb False (net_user s)\<rparr>)
      | NET_EVENT_OTHER \<Rightarrow> s)"

definition coo_network_is_ready :: "'s netmgr \<Rightarrow> bool" where
  "coo_network_is_ready s = network_online s"

text \<open>\<open>iface\<close> says whether there is a default interface.\<close>

definition coo_network_init ::
  "os \<Rightarrow> bool \<Rightarrow> (bool \<Rightarrow> 's \<Rightarrow> 's) option \<Rightarrow> 's netmgr \<Rightarrow> net \<Rightarrow> int \<times> 's netmgr \<times> net" where
  "coo_network_init os iface event_cb m s =
     (let m = m\<lparr>user_event_cb := event_cb\<rparr>
      in if \<not> iface then (- ENETDOWN, m, s)
         else let (_, s) = sys os (Net_add_callback [''IPV4_ADDR_ADD'', ''IPV4_ADDR_DEL'']) s;
                  (rc, s) = sys os Net_all_if_up s
              in if rc \<noteq> 0 then (rc, m, s)
                 else let (_, s) = sys os (Net_add_callback [''L4_CONNECTED'', ''L4_DISCONNECTED'']) s;
                          (_, s) = sys os Net_resend_status s
                      in (0, m, s))"

text \<open>
  The two waiting loops. \<open>reads n\<close> is the value of the \<open>n\<close>-th read of the flag; the results are the number of
  reads and of sleeps of 100 ms made.
\<close>

partial_function (option) wait_forever :: "(nat \<Rightarrow> bool) \<Rightarrow> nat \<Rightarrow> u32 \<Rightarrow> nat \<Rightarrow> (nat \<times> nat) option" where
  "wait_forever reads n elapsed slept =
     (if \<not> reads n
      then let elapsed = elapsed + 100; elapsed = (if elapsed \<ge> 10000 then 0 else elapsed)
           in wait_forever reads (n + 1) elapsed (slept + 1)
      else Some (n + 1, slept))"

partial_function (option) wait_timeout :: "(nat \<Rightarrow> bool) \<Rightarrow> u32 \<Rightarrow> nat \<Rightarrow> u32 \<Rightarrow> nat \<Rightarrow> (nat \<times> nat) option" where
  "wait_timeout reads timeout_ms n elapsed slept =
     (if \<not> reads n \<and> elapsed < timeout_ms
      then wait_timeout reads timeout_ms (n + 1) (elapsed + 100) (slept + 1)
      else Some (n + 1, slept))"

definition coo_network_wait_ready :: "(nat \<Rightarrow> bool) \<Rightarrow> u32 \<Rightarrow> (int \<times> nat) option" where
  "coo_network_wait_ready reads timeout_ms =
     (if timeout_ms = 0
      then map_option (\<lambda>(n, slept). (0, slept)) (wait_forever reads 0 0 0)
      else map_option (\<lambda>(n, slept). (if \<not> reads n then - ETIMEDOUT else 0, slept)) (wait_timeout reads timeout_ms 0 0 0))"

section \<open>Sockets\<close>

text \<open>The target is little-endian.\<close>

definition htons :: "u16 \<Rightarrow> u16" where
  "htons w = push_bit 8 w OR drop_bit 8 w"

definition INADDR_ANY :: u32 where "INADDR_ANY = 0"

definition coo_net_tcp_socket_create :: "os \<Rightarrow> u16 \<Rightarrow> bool \<Rightarrow> net \<Rightarrow> int \<times> net" where
  "coo_net_tcp_socket_create os port is_server s =
     (let (sock, s) = sys os (Net_socket SOCK_STREAM) s
      in if sock < 0 then (- errno s, s)
         else let (_, s) = sys os (Net_setsockopt sock (SO_REUSEADDR 1)) s
              in if is_server
                 then let (rc, s) = sys os (Net_bind sock (htons port) INADDR_ANY) s
                      in if rc < 0 then let (_, s) = sys os (Net_close sock) s in (- errno s, s)
                         else let (rc, s) = sys os (Net_listen sock 5) s
                              in if rc < 0 then let (_, s) = sys os (Net_close sock) s in (- errno s, s)
                                 else (sock, s)
                 else (sock, s))"

definition coo_net_udp_socket_create :: "os \<Rightarrow> u16 \<Rightarrow> net \<Rightarrow> int \<times> net" where
  "coo_net_udp_socket_create os port s =
     (let (sock, s) = sys os (Net_socket SOCK_DGRAM) s
      in if sock < 0 then (- errno s, s)
         else let (_, s) = sys os (Net_setsockopt sock (SO_REUSEADDR 1)) s;
                  (rc, s) = sys os (Net_bind sock (htons port) INADDR_ANY) s
              in if rc < 0 then let (_, s) = sys os (Net_close sock) s in (- errno s, s)
                 else (sock, s))"

text \<open>The two members of a \<open>struct timeval\<close>; C division and remainder truncate towards zero.\<close>

definition timeval_of :: "int \<Rightarrow> int \<times> int" where
  "timeval_of timeout_ms = (timeout_ms sdiv 1000, (timeout_ms smod 1000) * 1000)"

definition coo_net_tcp_connect :: "os \<Rightarrow> int \<Rightarrow> string \<Rightarrow> int \<Rightarrow> net \<Rightarrow> int \<times> net" where
  "coo_net_tcp_connect os sockfd addr timeout_ms s =
     (let (sec, usec) = timeval_of timeout_ms;
          (_, s) = sys os (Net_setsockopt sockfd (SO_RCVTIMEO sec usec)) s;
          (_, s) = sys os (Net_setsockopt sockfd (SO_SNDTIMEO sec usec)) s;
          (rc, s) = sys os (Net_connect sockfd addr) s
      in if rc < 0 then (- errno s, s) else (0, s))"

text \<open>The loop of \<open>coo_net_send_retry\<close>; \<open>retries\<close> counts up to \<open>max_retries\<close>.\<close>

function send_from :: "os \<Rightarrow> int \<Rightarrow> string \<Rightarrow> int \<Rightarrow> int \<Rightarrow> net \<Rightarrow> int \<times> net" where
  "send_from os sockfd buf max_retries retries s =
     (if retries < max_retries
      then let (ret, s) = sys os (Net_send sockfd buf) s
           in if ret \<ge> 0 then (ret, s)
              else if errno s \<noteq> EAGAIN \<and> errno s \<noteq> EWOULDBLOCK then (- errno s, s)
              else send_from os sockfd buf max_retries (retries + 1) (s\<lparr>net_calls := net_calls s @ [Net_sleep 100]\<rparr>)
      else (- ETIMEDOUT, s))"
  by pat_completeness auto
termination by (relation "measure (\<lambda>(os, sockfd, buf, m, r, s). nat (m - r))") auto

declare send_from.simps [simp del]

definition coo_net_send_retry :: "os \<Rightarrow> int \<Rightarrow> string \<Rightarrow> int \<Rightarrow> net \<Rightarrow> int \<times> net" where
  "coo_net_send_retry os sockfd buf max_retries s = send_from os sockfd buf max_retries 0 s"

definition coo_net_recv_timeout :: "os \<Rightarrow> int \<Rightarrow> nat \<Rightarrow> int \<Rightarrow> net \<Rightarrow> int \<times> net" where
  "coo_net_recv_timeout os sockfd len timeout_ms s =
     (let (sec, usec) = timeval_of timeout_ms;
          (_, s) = sys os (Net_setsockopt sockfd (SO_RCVTIMEO sec usec)) s
      in sys os (Net_recv sockfd len) s)"

section \<open>Waiting for the network\<close>

lemma unat_u32_less: "unat (t :: u32) < 4294967296"
  using unsigned_less [of t, where 'a = nat] by simp

lemma wait_timeout_run:
  assumes "\<forall>i<j. \<not> reads (n + i) \<and> unat e + 100 * i < unat t"
  shows "wait_timeout reads t n e k = wait_timeout reads t (n + j) (e + 100 * of_nat j) (k + j)"
  using assms
proof (induction j)
  case (Suc j)
  then have stop: "\<not> reads (n + j)" "unat e + 100 * j < unat t" by auto
  have w: "e + 100 * of_nat j = (of_nat (unat e + 100 * j) :: u32)" by simp
  have "unat (e + 100 * of_nat j) = unat e + 100 * j"
    unfolding w using stop(2) unat_u32_less [of t] by (simp add: unat_of_nat del: of_nat_add of_nat_mult)
  then have "e + 100 * of_nat j < t" using stop(2) by (simp add: word_less_nat_alt)
  with stop(1) have "wait_timeout reads t (n + j) (e + 100 * of_nat j) (k + j) =
      wait_timeout reads t (n + j + 1) (e + 100 * of_nat j + 100) (k + j + 1)"
    by (subst wait_timeout.simps) simp
  with Suc show ?case by (simp add: algebra_simps)
qed simp

lemma wait_forever_run:
  assumes "\<forall>i<j. \<not> reads (n + i)" and "reads (n + j)"
  shows "wait_forever reads n e k = Some (n + j + 1, k + j)"
  using assms
proof (induction j arbitrary: n e k)
  case 0
  then show ?case by (subst wait_forever.simps) simp
next
  case (Suc j)
  then have "\<not> reads n" by (auto dest: spec [of _ 0])
  moreover have "\<forall>i<j. \<not> reads (n + 1 + i)" using Suc.prems(1) by (metis Suc_less_eq add_Suc_right add_Suc_shift Suc_eq_plus1)
  ultimately show ?case
    using Suc.IH [of "n + 1"] Suc.prems(2) by (subst wait_forever.simps) (simp add: Let_def)
qed

lemma wait_forever_None:
  "wait_forever reads n e k = Some r \<Longrightarrow> \<exists>m. reads m"
  by (induction rule: wait_forever.raw_induct [rotated, consumes 1]) (auto simp: Let_def split: if_splits)

text \<open>A network that stays down: with a timeout of \<open>2 ^ 32 - 1\<close> ms the 32-bit sum of the waits wraps past it for ever.\<close>

lemma wait_timeout_wraps:
  "wait_timeout reads t n e k = Some r \<Longrightarrow> t = 4294967295 \<longrightarrow> unat e mod 4 = 0 \<longrightarrow> (\<exists>m. reads m)"
proof (induction rule: wait_timeout.raw_induct [rotated, consumes 1, case_names step])
  case (step f reads t n e k r)
  have four: "unat (e + 100) mod 4 = (unat e + 100) mod 4"
  proof -
    have "unat (e + 100) mod 4 = (unat e + 100) mod 2 ^ 32 mod 4" by (simp add: unat_word_ariths(1))
    also have "\<dots> = (unat e + 100) mod 4" by (rule mod_mod_cancel) simp
    finally show ?thesis .
  qed
  then have "unat (e + 100) mod 4 = 0" if "unat e mod 4 = 0" using that by presburger
  moreover have "e < 4294967295" if "unat e mod 4 = 0"
  proof -
    have "unat e < 4294967296" by (rule unat_u32_less)
    moreover have "unat e \<noteq> 4294967295" using that by auto
    ultimately show ?thesis by (simp add: word_less_nat_alt)
  qed
  ultimately show ?case using step(1) [of reads t "n + 1" "e + 100" "k + 1" r] step(2) by (auto split: if_splits)
qed



text \<open>
  A timeout close to the largest 32-bit number is never reached: with \<open>2 ^ 32 - 1\<close> ms and a network that stays down,
  the sum of the waits wraps round past it and the function never returns.
\<close>

theorem wait_ready_never_times_out:
  "coo_network_wait_ready (\<lambda>i. False) 4294967295 = None"
  using wait_timeout_wraps [of "\<lambda>i. False" 4294967295 0 0 0]
  by (cases "wait_timeout (\<lambda>i. False) 4294967295 0 0 0") (simp_all add: coo_network_wait_ready_def)

section \<open>Sending\<close>

text \<open>\<open>k\<close> blocked attempts, each followed by a wait of 100 ms.\<close>

definition blocked_sends :: "int \<Rightarrow> string \<Rightarrow> nat \<Rightarrow> net_call list" where
  "blocked_sends sockfd buf k = concat (replicate k [Net_send sockfd buf, Net_sleep 100])"

text \<open>
  The two ways a send with the attempts from \<open>r\<close> to \<open>m\<close> can end after \<open>k\<close> blocked ones: an attempt that does not
  block, whose result or error it is, or no attempt left.
\<close>

definition send_ends :: "os \<Rightarrow> int \<Rightarrow> string \<Rightarrow> int \<Rightarrow> int \<Rightarrow> net \<Rightarrow> nat \<Rightarrow> int \<times> net \<Rightarrow> bool" where
  "send_ends os sockfd buf m r s k res \<longleftrightarrow>
     (let (ret, s') = res; rc = fst (os (net_calls s')) in
       (if r + int k < m
        then net_calls s' = net_calls s @ blocked_sends sockfd buf k @ [Net_send sockfd buf] \<and>
             (rc \<ge> 0 \<or> errno s' \<noteq> EAGAIN) \<and> ret = (if rc \<ge> 0 then rc else - errno s')
        else int k = max 0 (m - r) \<and> net_calls s' = net_calls s @ blocked_sends sockfd buf k \<and> ret = - ETIMEDOUT))"

lemma send_ends_Suc:
  assumes "send_ends os sockfd buf m (r + 1) (s1\<lparr>net_calls := net_calls s @ [Net_send sockfd buf, Net_sleep 100]\<rparr>) k res" and "r < m"
  shows "send_ends os sockfd buf m r s (Suc k) res"
  using assms by (auto simp: send_ends_def blocked_sends_def Let_def case_prod_unfold split: if_splits)

lemma send_from_ends: "\<exists>k. send_ends os sockfd buf m r s k (send_from os sockfd buf m r s)"
proof (induction os sockfd buf m r s rule: send_from.induct)
  case (1 os sockfd buf m r s)
  obtain ret s1 where s1: "sys os (Net_send sockfd buf) s = (ret, s1)" by (cases "sys os (Net_send sockfd buf) s")
  then have c: "net_calls s1 = net_calls s @ [Net_send sockfd buf]" "ret = fst (os (net_calls s1))"
    by (auto simp: sys_def Let_def case_prod_unfold)
  consider "\<not> r < m" | "r < m" "ret \<ge> 0 \<or> errno s1 \<noteq> EAGAIN" | "r < m" "\<not> ret \<ge> 0" "errno s1 = EAGAIN" by fastforce
  then show ?case
  proof cases
    case 1
    then have "send_ends os sockfd buf m r s 0 (send_from os sockfd buf m r s)"
      by (subst send_from.simps) (simp add: send_ends_def blocked_sends_def)
    then show ?thesis ..
  next
    case 2
    then have "send_from os sockfd buf m r s = (if ret \<ge> 0 then ret else - errno s1, s1)"
      by (subst send_from.simps) (auto simp: s1 EWOULDBLOCK_def)
    with 2 c have "send_ends os sockfd buf m r s 0 (send_from os sockfd buf m r s)"
      by (simp add: send_ends_def blocked_sends_def)
    then show ?thesis ..
  next
    case 3
    let ?s = "s1\<lparr>net_calls := net_calls s1 @ [Net_sleep 100]\<rparr>"
    have run: "send_from os sockfd buf m r s = send_from os sockfd buf m (r + 1) ?s"
      using 3 by (subst send_from.simps) (simp add: s1 EWOULDBLOCK_def)
    have "\<exists>k. send_ends os sockfd buf m (r + 1) ?s k (send_from os sockfd buf m (r + 1) ?s)"
      using "1.IH" [OF 3(1) s1 [symmetric] refl 3(2)] 3(3) by (simp add: EWOULDBLOCK_def)
    then obtain k where "send_ends os sockfd buf m (r + 1) ?s k (send_from os sockfd buf m (r + 1) ?s)" by blast
    then have "send_ends os sockfd buf m r s (Suc k) (send_from os sockfd buf m (r + 1) ?s)"
      using send_ends_Suc [of os sockfd buf m r s s1 k] 3(1) by (simp add: c)
    then show ?thesis unfolding run ..
  qed
qed


section \<open>Creating sockets\<close>

text \<open>
  A server socket that cannot be bound or cannot listen is closed, once, and nothing is closed otherwise; the socket
  is returned exactly when nothing failed. The error returned is the \<open>errno\<close> after the close, which may be another
  than that of the call that failed.
\<close>

theorem tcp_server_closes_on_failure:
  "let h = net_calls s; sock = fst (os (h @ [Net_socket SOCK_STREAM]));
       opened = h @ [Net_socket SOCK_STREAM, Net_setsockopt sock (SO_REUSEADDR 1), Net_bind sock (htons port) 0];
       bound = fst (os opened); listening = fst (os (opened @ [Net_listen sock 5]));
       (ret, s') = coo_net_tcp_socket_create os port True s
   in net_calls s' =
        (if sock < 0 then h @ [Net_socket SOCK_STREAM]
         else if bound < 0 then opened @ [Net_close sock]
         else if listening < 0 then opened @ [Net_listen sock 5, Net_close sock]
         else opened @ [Net_listen sock 5]) \<and>
      ret = (if sock < 0 then - errno s' else if bound < 0 then - errno s' else if listening < 0 then - errno s' else sock)"
  by (auto simp: coo_net_tcp_socket_create_def sys_def Let_def case_prod_unfold INADDR_ANY_def)

lemma timeval_of_nonneg:
  assumes "0 \<le> t"
  shows "0 \<le> snd (timeval_of t)" and "snd (timeval_of t) < 1000000"
    and "fst (timeval_of t) * 1000000 + snd (timeval_of t) = t * 1000"
  using assms
  by (cases "t = 0";
      simp add: timeval_of_def signed_divide_int_def signed_modulo_int_def minus_mult_div_eq_mod [symmetric] sgn_1_pos [THEN iffD2])+

end
