(* ===== verification/Main_Loop.thy ===== *)
theory Main_Loop
  imports App_Flow Network
begin

text \<open>
  The main thread: the loop of \<open>main\<close> in \<open>app/src/main.c\<close> on top of the MQTT wrapper. The state of the
  user's callback is the pair of the two queues. The theory shows that what the loop does is a sequence of the
  steps of \<open>Main_App\<close>, what is published, and how long the watchdog waits.
\<close>

section \<open>The loop\<close>

record ('i, 'o) main_state =
  mq :: "('i \<times> 'o) mqtt_state"
  next_id :: u16            \<comment> \<open>\<open>msg_id\<close>\<close>
  last_wdt_feed :: int

text \<open>The clock is a function of the calls made so far; \<open>wdt\<close> says whether there is a watchdog.\<close>

definition feed_watchdog :: "bool \<Rightarrow> (sys_call list \<Rightarrow> int) \<Rightarrow> ('i, 'o) main_state \<Rightarrow> ('i, 'o) main_state" where
  "feed_watchdog wdt uptime s =
     (if wdt \<and> uptime (calls (mq s)) - last_wdt_feed s \<ge> WDT_FEED_INTERVAL_MS
      then let m = log_call Wdt_feed (mq s) in s\<lparr>mq := m, last_wdt_feed := uptime (calls m)\<rparr>
      else s)"

text \<open>The library may deliver events while a message is sent.\<close>

partial_function (option) drain_outbound ::
  "mqtt_lib \<Rightarrow> ('o, OutMsg) msgq \<Rightarrow> ('i, 'o) main_state \<Rightarrow> ('i, 'o) main_state option" where
  "drain_outbound L Q s =
     (let m = mq s in
      case q_get Q (snd (user_state m)) of
        None \<Rightarrow> Some s
      | Some (om, outq) \<Rightarrow>
          Option.bind
            (lib_call L (lib_publish L) (Mqtt_publish (publish_param om (next_id s)))
              (m\<lparr>user_state := (fst (user_state m), outq)\<rparr>))
            (\<lambda>(rc, m). drain_outbound L Q (s\<lparr>mq := m, next_id := next_id s + 1\<rparr>)))"

partial_function (option) main_inner ::
  "mqtt_lib \<Rightarrow> ('o, OutMsg) msgq \<Rightarrow> bool \<Rightarrow> (sys_call list \<Rightarrow> int) \<Rightarrow> ('i, 'o) main_state \<Rightarrow> ('i, 'o) main_state option" where
  "main_inner L Q wdt uptime s =
     (if coo_mqtt_is_connected (mq s)
      then Option.bind (drain_outbound L Q (feed_watchdog wdt uptime s)) (\<lambda>s.
             Option.bind (coo_mqtt_process L (mq s)) (\<lambda>(rc, m).
               if rc \<noteq> 0 then Some (s\<lparr>mq := m\<rparr>) else main_inner L Q wdt uptime (s\<lparr>mq := m\<rparr>)))
      else Some s)"

text \<open>One round of the endless outer loop: connect, subscribe, serve, disconnect.\<close>

definition main_session ::
  "mqtt_lib \<Rightarrow> ('o, OutMsg) msgq \<Rightarrow> bool \<Rightarrow> (sys_call list \<Rightarrow> int) \<Rightarrow> ('i, 'o) main_state \<Rightarrow> ('i, 'o) main_state option" where
  "main_session L Q wdt uptime s =
     Option.bind (coo_mqtt_connect L (mq s)) (\<lambda>m.
       let (rc, m) = coo_mqtt_subscribe L m
       in Option.bind (main_inner L Q wdt uptime (s\<lparr>mq := m\<rparr>)) (\<lambda>s.
            map_option (\<lambda>(rc, m). s\<lparr>mq := m\<rparr>) (lib_call L (lib_disconnect L) Mqtt_disconnect (mq s))))"

section \<open>The loop takes steps of the application\<close>

text \<open>What the main thread has handed to \<open>mqtt_publish\<close>, and its part of the application's state.\<close>

fun published_in :: "sys_call list \<Rightarrow> mqtt_param list" where
  "published_in [] = []"
| "published_in (Mqtt_publish p # cs) = p # published_in cs"
| "published_in (c # cs) = published_in cs"

lemma published_in_append [simp]: "published_in (cs @ ds) = published_in cs @ published_in ds"
  by (induction cs rule: published_in.induct) simp_all

definition seen :: "('i, 'o, 'p) app \<Rightarrow> u16 \<Rightarrow> ('i \<times> 'o) mqtt_state \<Rightarrow> ('i, 'o, 'p) app" where
  "seen a i m = a\<lparr>inbound := fst (user_state m), outbound := snd (user_state m), msg_id := i,
                  published := published_in (calls m)\<rparr>"

lemma seen_same:
  "user_state m' = user_state m \<Longrightarrow> published_in (calls m') = published_in (calls m) \<Longrightarrow> seen a i m' = seen a i m"
  by (simp add: seen_def)

lemma seen_log [simp]: "published_in [c] = [] \<Longrightarrow> seen a i (log_call c m) = seen a i m"
  by (simp add: seen_def log_call_def)

lemma event_calls_publish [simp]: "published_in (event_calls e) = []"
  by (simp add: event_calls_def split: mqtt_evt_type.split)

lemma event_calls_concat [simp]: "published_in (concat (map event_calls es)) = []"
  by (induction es) simp_all

lemma handler_steps:
  assumes "mqtt_event_handler L e m = Some m'" and "user_mqtt_cb m = Some (mqtt_command_handler J I Q)"
  shows "app_reachable J I Q P (seen a i m) (seen a i m')"
proof -
  have c: "published_in (calls m') = published_in (calls m)"
    using handler_facts(1) [OF assms(1)] by simp
  have "user_state m' = user_state m \<or> (\<exists>pub. user_state m' = mqtt_command_handler J I Q pub (user_state m))"
    using assms
    by (auto simp: mqtt_event_handler_def on_mqtt_publish_def on_mqtt_connect_def on_mqtt_disconnect_def clear_fds_def
        log_call_def Let_def case_prod_unfold split: mqtt_evt_type.splits if_splits)
  then show ?thesis
  proof
    assume "user_state m' = user_state m"
    then show ?thesis using seen_same [OF _ c] by (metis app_reachable.start)
  next
    assume "\<exists>pub. user_state m' = mqtt_command_handler J I Q pub (user_state m)"
    then obtain pub where pub: "mqtt_command_handler J I Q pub (fst (user_state m), snd (user_state m)) =
        (fst (user_state m'), snd (user_state m'))" by auto
    have "app_step J I Q P (seen a i m) ((seen a i m)\<lparr>inbound := fst (user_state m'), outbound := snd (user_state m')\<rparr>)"
      by (rule app_step.receive [where pub = pub]) (use pub in \<open>simp add: seen_def\<close>)
    also have "(seen a i m)\<lparr>inbound := fst (user_state m'), outbound := snd (user_state m')\<rparr> = seen a i m'"
      by (simp add: seen_def c)
    finally show ?thesis by (rule app_reachable_step)
  qed
qed

lemma deliver_steps:
  assumes "deliver L es m = Some m'" and "user_mqtt_cb m = Some (mqtt_command_handler J I Q)"
  shows "app_reachable J I Q P (seen a i m) (seen a i m')"
  using assms
proof (induction es arbitrary: m)
  case (Cons e es)
  then obtain t where t: "mqtt_event_handler L e m = Some t" "deliver L es t = Some m'"
    by (auto simp: bind_eq_Some_conv)
  from Cons.IH [OF t(2)] handler_steps [OF t(1) Cons.prems(2)] handler_facts(4) [OF t(1)] Cons.prems(2)
  show ?case by (metis app_reachable_trans)
qed (simp add: app_reachable.start)

text \<open>The state \<open>m'\<close> is reached from \<open>m\<close> by steps of the application, the callback still in place.\<close>

definition moves ::
  "json_lib \<Rightarrow> ('i, Command) msgq \<Rightarrow> ('o, OutMsg) msgq \<Rightarrow> ('p, OutMsg) msgq \<Rightarrow> ('i, 'o, 'p) app \<Rightarrow> u16 \<Rightarrow>
     ('i \<times> 'o) mqtt_state \<Rightarrow> ('i \<times> 'o) mqtt_state \<Rightarrow> bool" where
  "moves J I Q P a i m m' \<longleftrightarrow>
     (user_mqtt_cb m = Some (mqtt_command_handler J I Q) \<longrightarrow>
        app_reachable J I Q P (seen a i m) (seen a i m') \<and> user_mqtt_cb m' = Some (mqtt_command_handler J I Q))"

lemma moves_trans: "moves J I Q P a i m m' \<Longrightarrow> moves J I Q P a i m' m'' \<Longrightarrow> moves J I Q P a i m m''"
  unfolding moves_def by (metis app_reachable_trans)

lemma moves_same:
  "seen a i m' = seen a i m \<Longrightarrow> user_mqtt_cb m' = user_mqtt_cb m \<Longrightarrow> moves J I Q P a i m m'"
  by (simp add: moves_def app_reachable.start)

lemma moves_refl: "moves J I Q P a i m m"
  by (simp add: moves_same)

lemma moves_log: "published_in [c] = [] \<Longrightarrow> moves J I Q P a i m (log_call c m)"
  by (rule moves_same) (simp_all add: log_call_def seen_def)

lemma moves_deliver: "deliver L es m = Some m' \<Longrightarrow> moves J I Q P a i m m'"
  using deliver_steps deliver_facts by (fastforce simp: moves_def)

lemma moves_lib_call:
  assumes "lib_call L f c m = Some (rc, m')" and "published_in [c] = []"
  shows "moves J I Q P a i m m'"
proof -
  have "deliver L (snd (f (calls (log_call c m)))) (log_call c m) = Some m'"
    using assms(1) by (auto simp: lib_call_def Let_def case_prod_unfold)
  then show ?thesis by (rule moves_trans [OF moves_log [OF assms(2)] moves_deliver])
qed

lemma moves_poll: "moves J I Q P a i m (snd (poll_mqtt_socket L t m))"
  by (rule moves_same) (simp_all add: poll_mqtt_socket_def prepare_fds_def seen_def log_call_def Let_def case_prod_unfold)

lemma moves_subscribe: "moves J I Q P a i m (snd (coo_mqtt_subscribe L m))"
  by (rule moves_same) (simp_all add: coo_mqtt_subscribe_def seen_def log_call_def Let_def)

text \<open>The same for the state of the main thread, whose message id moves too.\<close>

definition main_moves ::
  "json_lib \<Rightarrow> ('i, Command) msgq \<Rightarrow> ('o, OutMsg) msgq \<Rightarrow> ('p, OutMsg) msgq \<Rightarrow> ('i, 'o, 'p) app \<Rightarrow>
     ('i, 'o) main_state \<Rightarrow> ('i, 'o) main_state \<Rightarrow> bool" where
  "main_moves J I Q P a s s' \<longleftrightarrow>
     (user_mqtt_cb (mq s) = Some (mqtt_command_handler J I Q) \<longrightarrow>
        app_reachable J I Q P (seen a (next_id s) (mq s)) (seen a (next_id s') (mq s')) \<and>
        user_mqtt_cb (mq s') = Some (mqtt_command_handler J I Q))"

lemma main_moves_refl: "main_moves J I Q P a s s"
  by (simp add: main_moves_def app_reachable.start)

lemma main_moves_trans: "main_moves J I Q P a s t \<Longrightarrow> main_moves J I Q P a t u \<Longrightarrow> main_moves J I Q P a s u"
  unfolding main_moves_def by (metis app_reachable_trans)

lemma main_moves_mq: "moves J I Q P a (next_id s) (mq s) m \<Longrightarrow> main_moves J I Q P a s (s\<lparr>mq := m\<rparr>)"
  by (simp add: main_moves_def moves_def)

lemma feed_moves: "main_moves J I Q P a s (feed_watchdog wdt uptime s)"
  by (simp add: main_moves_def feed_watchdog_def Let_def app_reachable.start log_call_def seen_def)

lemma publish_moves:
  assumes "q_get Q (snd (user_state (mq s))) = Some (om, outq)"
    and "lib_call L (lib_publish L) (Mqtt_publish (publish_param om (next_id s)))
           ((mq s)\<lparr>user_state := (fst (user_state (mq s)), outq)\<rparr>) = Some (rc, m)"
  shows "main_moves J I Q P a s (s\<lparr>mq := m, next_id := next_id s + 1\<rparr>)"
proof -
  let ?p = "publish_param om (next_id s)"
  let ?m = "log_call (Mqtt_publish ?p) ((mq s)\<lparr>user_state := (fst (user_state (mq s)), outq)\<rparr>)"
  have "app_step J I Q P (seen a (next_id s) (mq s))
      ((seen a (next_id s) (mq s))\<lparr>outbound := outq, msg_id := msg_id (seen a (next_id s) (mq s)) + 1,
        published := published (seen a (next_id s) (mq s)) @ [publish_param om (msg_id (seen a (next_id s) (mq s)))]\<rparr>)"
    by (rule app_step.publish) (use assms(1) in \<open>simp add: seen_def\<close>)
  also have "\<dots> = seen a (next_id s + 1) ?m"
    by (simp add: seen_def log_call_def)
  finally have one: "app_reachable J I Q P (seen a (next_id s) (mq s)) (seen a (next_id s + 1) ?m)"
    by (rule app_reachable_step)
  have "deliver L (snd (lib_publish L (calls ?m))) ?m = Some m"
    using assms(2) by (auto simp: lib_call_def Let_def case_prod_unfold)
  then have "moves J I Q P a (next_id s + 1) ?m m" by (rule moves_deliver)
  then show ?thesis using one by (auto simp: main_moves_def moves_def log_call_def intro: app_reachable_trans)
qed

section \<open>Draining the outbound queue\<close>

text \<open>Sending a message does not receive one.\<close>

definition publish_law :: "mqtt_lib \<Rightarrow> bool" where
  "publish_law L \<longleftrightarrow> (\<forall>h. list_all (\<lambda>e. evt_type e \<noteq> MQTT_EVT_PUBLISH) (snd (lib_publish L h)))"

lemma deliver_quiet:
  "list_all (\<lambda>e. evt_type e \<noteq> MQTT_EVT_PUBLISH) es \<Longrightarrow> \<exists>m'. deliver L es m = Some m' \<and> user_state m' = user_state m"
proof (induction es arbitrary: m)
  case (Cons e es)
  then have "\<exists>t. mqtt_event_handler L e m = Some t \<and> user_state t = user_state m"
    by (auto simp: mqtt_event_handler_def on_mqtt_connect_def on_mqtt_disconnect_def clear_fds_def log_call_def
        split: mqtt_evt_type.split)
  with Cons show ?case by fastforce
qed simp

lemma publish_call_quiet:
  assumes "publish_law L"
  shows "\<exists>rc m'. lib_call L (lib_publish L) (Mqtt_publish p) m = Some (rc, m') \<and> user_state m' = user_state m \<and>
    published_in (calls m') = published_in (calls m) @ [p]"
proof -
  let ?m = "log_call (Mqtt_publish p) m"
  have "list_all (\<lambda>e. evt_type e \<noteq> MQTT_EVT_PUBLISH) (snd (lib_publish L (calls ?m)))"
    using assms by (simp add: publish_law_def)
  from deliver_quiet [OF this, of L ?m] obtain m' where m':
    "deliver L (snd (lib_publish L (calls ?m))) ?m = Some m'" "user_state m' = user_state ?m" by blast
  with deliver_facts [OF m'(1)] show ?thesis
    by (auto simp: lib_call_def Let_def case_prod_unfold log_call_def event_calls_concat)
qed

lemma drain_outbound_ends:
  assumes "msgq_laws Q contents depth" and "publish_law L"
  shows "\<exists>s'. drain_outbound L Q s = Some s' \<and> contents (snd (user_state (mq s'))) = [] \<and>
    fst (user_state (mq s')) = fst (user_state (mq s)) \<and>
    next_id s' = next_id s + of_nat (length (contents (snd (user_state (mq s))))) \<and>
    published_in (calls (mq s')) = published_in (calls (mq s)) @
      map (\<lambda>k. publish_param (contents (snd (user_state (mq s))) ! k) (next_id s + of_nat k))
        [0..<length (contents (snd (user_state (mq s))))]"
proof (induction "contents (snd (user_state (mq s)))" arbitrary: s)
  case Nil
  then show ?case
    using msgq_get_empty [OF assms(1), of "snd (user_state (mq s))"]
    by (subst drain_outbound.simps) (simp add: Let_def)
next
  case (Cons om ms)
  let ?q = "snd (user_state (mq s))" and ?i = "next_id s"
  obtain q1 where q1: "q_get Q ?q = Some (om, q1)" "contents q1 = ms"
    using msgq_get_Cons [OF assms(1) Cons.hyps(2) [symmetric]] by blast
  let ?m = "(mq s)\<lparr>user_state := (fst (user_state (mq s)), q1)\<rparr>"
  obtain rc m' where m': "lib_call L (lib_publish L) (Mqtt_publish (publish_param om ?i)) ?m = Some (rc, m')"
    "user_state m' = user_state ?m" "published_in (calls m') = published_in (calls ?m) @ [publish_param om ?i]"
    using publish_call_quiet [OF assms(2)] by blast
  have run: "drain_outbound L Q s = drain_outbound L Q (s\<lparr>mq := m', next_id := ?i + 1\<rparr>)"
    using q1(1) m'(1) by (subst drain_outbound.simps) (simp add: Let_def)
  have ids: "map (\<lambda>k. publish_param ((om # ms) ! k) (?i + of_nat k)) [0..<Suc (length ms)] =
      publish_param om ?i # map (\<lambda>k. publish_param (ms ! k) (?i + 1 + of_nat k)) [0..<length ms]"
    by (simp add: map_upt_Suc add.assoc del: upt_Suc)
  show ?case
    unfolding run using Cons.hyps(1) [of "s\<lparr>mq := m', next_id := ?i + 1\<rparr>"] m' q1(2) ids
    by (simp add: Cons.hyps(2) [symmetric] add.assoc del: upt_Suc)
qed


definition two_samples :: "(Command list, OutMsg list) main_state" where
  "two_samples = \<lparr>mq = ready_client ([], [photodiode_message 1 2 3, photodiode_message 4 5 6]), next_id = 65535, last_wdt_feed = 0\<rparr>"


text \<open>A broker that, once connected, delivers one request and then drops the connection.\<close>

definition request_then_drop :: mqtt_lib where
  "request_then_drop = slow_broker
     \<lparr>lib_connect := \<lambda>h. (0, []),
      lib_input := \<lambda>h. (if length h \<le> 3 then (0, [connack])
        else (- ENOTCONN, [connack\<lparr>evt_type := MQTT_EVT_PUBLISH, evt_message := status_request\<rparr>])),
      lib_read_payload := \<lambda>h. (2, ''{}'')\<rparr>"

definition tib_main :: "(Command list, OutMsg list) main_state" where
  "tib_main = \<lparr>mq = coo_mqtt_set_message_callback
                 (Some (mqtt_command_handler get_json (list_msgq 2) (list_msgq 8)))
                 (snd (coo_mqtt_add_subscription (MQTT_CMD_PREFIX @ ''#'') MQTT_QOS_2_EXACTLY_ONCE (ready_client ([], [])))),
               next_id = 1, last_wdt_feed = 0\<rparr>"

lemma tib_main_facts:
  "user_mqtt_cb (mq tib_main) = Some (mqtt_command_handler get_json (list_msgq 2) (list_msgq 8))"
  "user_state (mq tib_main) = ([], [])" "calls (mq tib_main) = []"
  by (simp_all add: tib_main_def coo_mqtt_set_message_callback_def coo_mqtt_add_subscription_def ready_client_facts)

lemma connect_until_done: "mqtt_connected m \<Longrightarrow> connect_until L m = Some m"
  by (subst connect_until.simps) simp

text \<open>
  A session of a single pass, where no loop turns twice: the broker accepts at once, nothing waits to be published and the poll
  brings what ends the connection.
\<close>

definition one_pass ::
  "mqtt_lib \<Rightarrow> ('o, OutMsg) msgq \<Rightarrow> bool \<Rightarrow> (sys_call list \<Rightarrow> int) \<Rightarrow> ('i, 'o) main_state \<Rightarrow> ('i, 'o) main_state option" where
  "one_pass L Q wdt uptime s =
     (case connect_round L ((mq s)\<lparr>mqtt_connected := False\<rparr>) of
        None \<Rightarrow> None
      | Some m \<Rightarrow>
          (let s1 = s\<lparr>mq := snd (coo_mqtt_subscribe L m)\<rparr>; s2 = feed_watchdog wdt uptime s1
           in if mqtt_connected m \<and> mqtt_connected (mq s1) \<and> Option.is_none (q_get Q (snd (user_state (mq s2))))
              then (case coo_mqtt_process L (mq s2) of
                      None \<Rightarrow> None
                    | Some (rc, m) \<Rightarrow>
                        (if rc = 0 then None
                         else map_option (\<lambda>r. s2\<lparr>mq := snd r\<rparr>) (lib_call L (lib_disconnect L) Mqtt_disconnect m)))
              else None))"

lemma one_pass_session:
  assumes "one_pass L Q wdt uptime s = Some s'"
  shows "main_session L Q wdt uptime s = Some s'"
proof -
  obtain m where m: "connect_round L ((mq s)\<lparr>mqtt_connected := False\<rparr>) = Some m" "mqtt_connected m"
    using assms by (auto simp: one_pass_def Let_def split: option.splits if_splits)
  let ?s1 = "s\<lparr>mq := snd (coo_mqtt_subscribe L m)\<rparr>"
  let ?s2 = "feed_watchdog wdt uptime ?s1"
  have g: "mqtt_connected (mq ?s1)" "q_get Q (snd (user_state (mq ?s2))) = None"
    using assms m by (auto simp: one_pass_def Let_def Option.is_none_def split: if_splits)
  obtain rc m' r where p: "coo_mqtt_process L (mq ?s2) = Some (rc, m')" "rc \<noteq> 0"
    "lib_call L (lib_disconnect L) Mqtt_disconnect m' = Some r" "s' = ?s2\<lparr>mq := snd r\<rparr>"
    using assms m g by (auto simp: one_pass_def Let_def split: option.splits if_splits)
  have "coo_mqtt_connect L (mq s) = Some m"
    using m unfolding coo_mqtt_connect_def by (subst connect_until.simps) (simp add: connect_until_done)
  moreover have "drain_outbound L Q ?s2 = Some ?s2"
    using g(2) by (subst drain_outbound.simps) (simp add: Let_def)
  then have "main_inner L Q wdt uptime ?s1 = Some (?s2\<lparr>mq := m'\<rparr>)"
    using g(1) p(1,2) by (subst main_inner.simps) (simp add: coo_mqtt_is_connected_def)
  ultimately show ?thesis
    using p(3,4) by (simp add: main_session_def case_prod_unfold Let_def)
qed

lemma tib_main_session:
  "\<exists>s'. main_session request_then_drop (list_msgq 8) True (\<lambda>h. 100 * int (length h)) tib_main = Some s' \<and>
     length (fst (user_state (mq s'))) = 1"
proof -
  let ?s = "one_pass request_then_drop (list_msgq 8) True (\<lambda>h. 100 * int (length h)) tib_main"
  have "\<not> Option.is_none ?s" "length (fst (user_state (mq (the ?s)))) = 1"
    by code_simp+
  then show ?thesis by (auto simp: Option.is_none_def intro: one_pass_session)
qed

section \<open>The watchdog\<close>

fun slept :: "sys_call list \<Rightarrow> nat" where
  "slept [] = 0"
| "slept (K_msleep t # cs) = t + slept cs"
| "slept (c # cs) = slept cs"

lemma refusals_starve: "Wdt_feed \<notin> set (refusals n)" "slept (refusals n @ cs) = n * 5000 + slept cs"
  by (induction n) (simp_all add: refusals_def tib_defs)

text \<open>
  C40: while the broker refuses connections nobody feeds the watchdog. Each refusal sleeps for 5000 ms, the whole
  timeout of the watchdog, inside \<open>coo_mqtt_connect\<close>, which makes no call of \<open>wdt_feed\<close>: one refusal is enough to
  reset the board.
\<close>

theorem reconnect_starves_watchdog:
  assumes "accepts_after L (calls m) n" and "cl_transport (client m) = MQTT_TRANSPORT_NON_SECURE" and "0 < n"
  shows "\<exists>m' new. coo_mqtt_connect L m = Some m' \<and> calls m' = calls m @ new \<and> Wdt_feed \<notin> set new \<and>
    WDT_TIMEOUT_MS \<le> slept new"
proof -
  from connect_after_refusals [of L "m\<lparr>mqtt_connected := False\<rparr>" n] assms(1,2) show ?thesis
    using assms(3) by (force simp: coo_mqtt_connect_def refusals_starve WDT_TIMEOUT_MS_def)
qed

theorem reconnect_starves_watchdog_witness:
  "\<exists>m' new. coo_mqtt_connect slow_broker (ready_client ()) = Some m' \<and> calls m' = new \<and> Wdt_feed \<notin> set new \<and>
     WDT_TIMEOUT_MS \<le> slept new"
  using reconnect_starves_watchdog [of slow_broker "ready_client ()" 2] slow_broker_accepts
  by (simp add: ready_client_facts)

section \<open>Received messages\<close>

text \<open>The invariant of the two queues, with the laws it rests on.\<close>

definition queues_ok ::
  "json_lib \<Rightarrow> ('i, Command) msgq \<Rightarrow> ('o, OutMsg) msgq \<Rightarrow> ('i \<Rightarrow> Command list) \<Rightarrow> ('o \<Rightarrow> OutMsg list) \<Rightarrow>
     nat \<Rightarrow> nat \<Rightarrow> 'i \<times> 'o \<Rightarrow> bool" where
  "queues_ok J I Q ci co idepth odepth io \<longleftrightarrow>
     json_in_place J \<and> msgq_laws I ci idepth \<and> msgq_laws Q co odepth \<and>
     list_all queued_ok (ci (fst io)) \<and> list_all out_msg_wf (co (snd io))"

lemma receive_queues_ok:
  assumes "queues_ok J I Q ci co idepth odepth io"
  shows "queues_ok J I Q ci co idepth odepth (mqtt_command_handler J I Q pub io)"
proof -
  obtain inq outq inq' outq' where io: "io = (inq, outq)" "mqtt_command_handler J I Q pub (inq, outq) = (inq', outq')"
    by (metis surj_pair)
  with assms receive_inv [of I ci idepth Q co odepth J inq outq pub inq' outq'] show ?thesis
    by (simp add: queues_ok_def)
qed

interpretation tib_consumer:
  message_consumer "mqtt_command_handler J I Q" "queues_ok J I Q ci co idepth odepth" for J I Q ci co idepth odepth
  by unfold_locales (rule receive_queues_ok)

text \<open>
  Whatever the broker sends and the library does, one call of \<open>coo_mqtt_process\<close> comes back without having
  touched memory outside an array, and leaves only well-formed commands and replies in the queues.
\<close>

theorem process_keeps_queues:
  assumes "read_law L" and "user_mqtt_cb m = Some (mqtt_command_handler J I Q)"
    and "queues_ok J I Q ci co idepth odepth (user_state m)"
  shows "\<exists>rc m'. coo_mqtt_process L m = Some (rc, m') \<and> queues_ok J I Q ci co idepth odepth (user_state m')"
proof -
  have "tib_consumer.consuming J I Q ci co idepth odepth m" using assms(2,3) by (simp add: tib_consumer.consuming_def)
  from tib_consumer.process_consuming [OF assms(1) this] show ?thesis by (auto simp: tib_consumer.consuming_def)
qed

theorem process_keeps_queues_witness:
  "\<exists>rc m'. coo_mqtt_process slow_broker (mq tib_main) = Some (rc, m') \<and>
     queues_ok get_json (list_msgq 2) (list_msgq 8) (\<lambda>q. q) (\<lambda>q. q) 2 8 (user_state m')"
proof -
  have "read_law slow_broker" by (simp add: read_law_def slow_broker_def EAGAIN_def)
  moreover have "user_mqtt_cb (mq tib_main) = Some (mqtt_command_handler get_json (list_msgq 2) (list_msgq 8))"
    by (rule tib_main_facts)
  moreover have "queues_ok get_json (list_msgq 2) (list_msgq 8) (\<lambda>q. q) (\<lambda>q. q) 2 8 (user_state (mq tib_main))"
    by (simp add: queues_ok_def get_json_in_place list_msgq_laws tib_main_facts)
  ultimately show ?thesis by (rule process_keeps_queues)
qed

section \<open>Requests and their replies\<close>

text \<open>
  C12: a reply finds its way back. When the command made from a message is dispatched, the message published for it is
  addressed to the response topic of the request (the default topic when that is the empty string), carries the request's
  correlation data, byte for byte, when that has 1 to 15 bytes and none otherwise, and has a terminated text.
\<close>

theorem reply_matches_request:
  assumes "tib_inv t" and "command_of pub c" and "dispatch_command R c t = Some (om, t')"
    and "response_utf8 pub = Some rt"
  shows "(let p = publish_param om i
     in take (par_topic_size p) (par_topic p) = (if cstr rt = [] then default_topic else cstr rt) \<and>
        take (par_correlation_len p) (par_correlation p) =
          (if 0 < length (correlation pub) \<and> length (correlation pub) < 16 then correlation pub else []) \<and>
        take (par_payload_len p) (par_payload p) = cstr (par_payload p) \<and> par_payload_len p < 256)"
proof -
  have c: "command_wf c" "cstr (cmd_response_topic c) = cstr rt" "length rt < 64"
    using assms(2,4) by (auto simp: command_of_def queued_ok_def MAX_TOPIC_LEN_def)
  from dispatch.contract [OF assms(1) c(1) assms(3)] have a: "answers c om" by simp
  have "length (cstr rt) < 64" using length_cstr_le [of rt] c(3) by simp
  then have topic: "cstr (out_topic om) = (if cstr rt = [] then default_topic else cstr rt)"
    using a c(2) by (simp add: answers_def c_strlen_def MAX_TOPIC_LEN_def)
  have corr: "take (out_corr_len om) (out_correlation_data om) =
      (if 0 < length (correlation pub) \<and> length (correlation pub) < 16 then correlation pub else [])"
    using a assms(2) by (auto simp: answers_def command_of_def MAX_CORRELATION_DATA_def split: if_splits)
  have "c_strlen (out_payload om) = out_payload_len om" "out_payload_len om < 256"
    using a by (simp_all add: answers_def out_msg_wf_def MAX_PAYLOAD_LEN_def)
  with topic corr show ?thesis
    using take_strlen [of "out_payload om"] by (simp add: publish_param_def Let_def take_strlen)
qed

theorem reply_matches_request_witness:
  "\<exists>c om t. command_of status_request c \<and> dispatch_command (sample_runtime get_json) c (booted []) = Some (om, t) \<and>
     take (par_topic_size (publish_param om 1)) (par_topic (publish_param om 1)) = ''me'' \<and>
     take (par_correlation_len (publish_param om 1)) (par_correlation (publish_param om 1)) = [7, 8]"
proof -
  obtain c where c: "command_of status_request c" using status_command by blast
  obtain om t where d: "dispatch_command (sample_runtime get_json) c (booted []) = Some (om, t)"
    using dispatch_returns by blast
  have "response_utf8 status_request = Some ''me''" by (simp add: status_request_def)
  from reply_matches_request [OF booted_inv_nil c d this, of 1] c d show ?thesis
    by (intro exI [of _ c] exI [of _ om] exI [of _ t]) (simp add: status_request_def cstr_id NUL_def Let_def)
qed

section \<open>From power-up\<close>

text \<open>
  \<open>main\<close> up to its loop. \<open>None\<close>: an access outside an array during the initialisation of the devices, or a
  network that never comes up; \<open>Inl\<close>: \<open>main\<close> returns with this code. Everything else is a parameter: the board, whether there is
  a default interface, the reads of the network's flag, the resolver, and the queues. The results of \<open>coo_network_init\<close>
  (see \<open>Network\<close>), of the watchdog and of the stored settings, which nothing uses, are ignored by \<open>main\<close>.
\<close>

definition main_init ::
  "platform \<Rightarrow> bool \<Rightarrow> (nat \<Rightarrow> bool) \<Rightarrow> (string \<Rightarrow> string \<Rightarrow> int \<times> sockaddr_in option) \<Rightarrow>
     json_lib \<Rightarrow> ('i, Command) msgq \<Rightarrow> ('o, OutMsg) msgq \<Rightarrow> ('i \<times> 'o) mqtt_state \<Rightarrow> (int + tib \<times> ('i, 'o) main_state) option" where
  "main_init B iface reads resolve J I Q client_ctx =
     (case boot B of
        None \<Rightarrow> None
      | Some t \<Rightarrow>
          (if \<not> iface then Some (Inl (- ENETDOWN))
           else case coo_network_wait_ready reads 0 of
             None \<Rightarrow> None
           | Some _ \<Rightarrow>
               (let (rc, m) = coo_mqtt_init resolve ''hsfib-tib'' client_ctx
                in if rc \<noteq> 0 then Some (Inl rc)
                   else let m = snd (coo_mqtt_add_subscription (MQTT_CMD_PREFIX @ ''#'') MQTT_QOS_2_EXACTLY_ONCE m);
                            m = coo_mqtt_set_message_callback (Some (mqtt_command_handler J I Q)) m
                        in Some (Inr (t, \<lparr>mq = m, next_id = 1, last_wdt_feed = 0\<rparr>)))))"

text \<open>\<open>n\<close> rounds of the endless loop.\<close>

fun main_sessions ::
  "nat \<Rightarrow> mqtt_lib \<Rightarrow> ('o, OutMsg) msgq \<Rightarrow> bool \<Rightarrow> (sys_call list \<Rightarrow> int) \<Rightarrow> ('i, 'o) main_state \<Rightarrow> ('i, 'o) main_state option" where
  "main_sessions 0 L Q wdt uptime s = Some s"
| "main_sessions (Suc n) L Q wdt uptime s =
     Option.bind (main_session L Q wdt uptime s) (main_sessions n L Q wdt uptime)"

end
