(* ===== verification/Firmware.thy ===== *)
theory Firmware
  imports Main_Loop
begin

text \<open>
  The whole firmware: the main thread cut at its blocking calls, and the executor, the photodiode thread and the
  forwarding work item running between any two of its steps on the queues they share.
\<close>

section \<open>The main thread, one blocking call at a time\<close>

datatype main_pc =
    Starting            \<comment> \<open>at the head of the endless loop\<close>
  | Connecting          \<comment> \<open>\<open>while (!mqtt_connected)\<close> in \<open>coo_mqtt_connect\<close>\<close>
  | Backing_off         \<comment> \<open>before \<open>k_msleep\<close>\<close>
  | Awaiting_connack    \<comment> \<open>before \<open>poll_mqtt_socket\<close>\<close>
  | Reading_connack     \<comment> \<open>before \<open>mqtt_input\<close>\<close>
  | Checking_connack    \<comment> \<open>before \<open>if (!mqtt_connected)\<close>\<close>
  | Subscribing
  | Serving             \<comment> \<open>\<open>while (coo_mqtt_is_connected())\<close>\<close>
  | Draining            \<comment> \<open>\<open>while (k_msgq_get(...) == 0)\<close>\<close>
  | Polling             \<comment> \<open>in \<open>coo_mqtt_process\<close>, before \<open>poll_mqtt_socket\<close>\<close>
  | Reading             \<comment> \<open>before \<open>mqtt_input\<close>\<close>
  | Pinging             \<comment> \<open>before \<open>mqtt_live\<close>\<close>
  | Disconnecting

definition main_tick ::
  "mqtt_lib \<Rightarrow> ('o, OutMsg) msgq \<Rightarrow> bool \<Rightarrow> (sys_call list \<Rightarrow> int) \<Rightarrow> main_pc \<times> ('i, 'o) main_state \<Rightarrow>
     (main_pc \<times> ('i, 'o) main_state) option" where
  "main_tick L Q wdt uptime c =
     (let (pc, s) = c; m = mq s; goto = (\<lambda>pc m. (pc, s\<lparr>mq := m\<rparr>))
      in case pc of
        Starting \<Rightarrow> Some (goto Connecting (m\<lparr>mqtt_connected := False\<rparr>))
      | Connecting \<Rightarrow>
          (if \<not> mqtt_connected m
           then map_option (\<lambda>(rc, m). goto (if rc \<noteq> 0 then Backing_off else Awaiting_connack) m)
                  (lib_call L (lib_connect L) Mqtt_connect m)
           else Some (Subscribing, s))
      | Backing_off \<Rightarrow> Some (goto Connecting (log_call (K_msleep MSECS_WAIT_RECONNECT) m))
      | Awaiting_connack \<Rightarrow>
          (let (rc, m) = poll_mqtt_socket L MSECS_NET_POLL_TIMEOUT m
           in Some (goto (if rc > 0 then Reading_connack else Checking_connack) m))
      | Reading_connack \<Rightarrow> map_option (\<lambda>(rc, m). goto Checking_connack m) (lib_call L (lib_input L) Mqtt_input m)
      | Checking_connack \<Rightarrow>
          (if \<not> mqtt_connected m then map_option (\<lambda>(rc, m). goto Connecting m) (lib_call L (lib_abort L) Mqtt_abort m)
           else Some (Connecting, s))
      | Subscribing \<Rightarrow> Some (goto Serving (snd (coo_mqtt_subscribe L m)))
      | Serving \<Rightarrow>
          (if coo_mqtt_is_connected m then Some (Draining, feed_watchdog wdt uptime s) else Some (Disconnecting, s))
      | Draining \<Rightarrow>
          (case q_get Q (snd (user_state m)) of
             None \<Rightarrow> Some (Polling, s)
           | Some (om, outq) \<Rightarrow>
               map_option (\<lambda>(rc, m). (Draining, s\<lparr>mq := m, next_id := next_id s + 1\<rparr>))
                 (lib_call L (lib_publish L) (Mqtt_publish (publish_param om (next_id s)))
                   (m\<lparr>user_state := (fst (user_state m), outq)\<rparr>)))
      | Polling \<Rightarrow>
          (let (rc, m) = poll_mqtt_socket L (lib_keepalive L (calls m)) m
           in Some (goto (if rc \<noteq> 0 then (if ZSOCK_POLLIN \<in> set (pfd_revents m) then Reading else Serving)
                        else Pinging) m))
      | Reading \<Rightarrow>
          map_option (\<lambda>(rc, m). goto (if rc \<noteq> 0 \<or> ZSOCK_POLLHUP \<in> set (pfd_revents m) \<or> ZSOCK_POLLERR \<in> set (pfd_revents m)
                                    then Disconnecting else Serving) m)
            (lib_call L (lib_input L) Mqtt_input m)
      | Pinging \<Rightarrow>
          map_option (\<lambda>(rc, m). goto (if rc \<noteq> 0 then Disconnecting else Serving) m) (lib_call L (lib_live L) Mqtt_live m)
      | Disconnecting \<Rightarrow>
          map_option (\<lambda>(rc, m). goto Starting m) (lib_call L (lib_disconnect L) Mqtt_disconnect m))"

fun main_ticks ::
  "nat \<Rightarrow> mqtt_lib \<Rightarrow> ('o, OutMsg) msgq \<Rightarrow> bool \<Rightarrow> (sys_call list \<Rightarrow> int) \<Rightarrow> main_pc \<times> ('i, 'o) main_state \<Rightarrow>
     (main_pc \<times> ('i, 'o) main_state) option" where
  "main_ticks 0 L Q wdt uptime c = Some c"
| "main_ticks (Suc n) L Q wdt uptime c = Option.bind (main_tick L Q wdt uptime c) (main_ticks n L Q wdt uptime)"

section \<open>Ticks and rounds\<close>

text \<open>What is left of a round of the loop, in terms of the functions of the sources.\<close>

definition finish :: "mqtt_lib \<Rightarrow> ('i, 'o) main_state \<Rightarrow> ('i, 'o) main_state option" where
  "finish L s = map_option (\<lambda>(rc, m). s\<lparr>mq := m\<rparr>) (lib_call L (lib_disconnect L) Mqtt_disconnect (mq s))"

definition serve ::
  "mqtt_lib \<Rightarrow> ('o, OutMsg) msgq \<Rightarrow> bool \<Rightarrow> (sys_call list \<Rightarrow> int) \<Rightarrow> ('i, 'o) main_state \<Rightarrow> ('i, 'o) main_state option" where
  "serve L Q wdt uptime s = Option.bind (main_inner L Q wdt uptime s) (finish L)"

definition connect_on ::
  "mqtt_lib \<Rightarrow> ('o, OutMsg) msgq \<Rightarrow> bool \<Rightarrow> (sys_call list \<Rightarrow> int) \<Rightarrow> ('i, 'o) main_state \<Rightarrow> ('i, 'o) main_state option" where
  "connect_on L Q wdt uptime s =
     Option.bind (connect_until L (mq s)) (\<lambda>m. serve L Q wdt uptime (s\<lparr>mq := snd (coo_mqtt_subscribe L m)\<rparr>))"

definition check_on ::
  "mqtt_lib \<Rightarrow> ('o, OutMsg) msgq \<Rightarrow> bool \<Rightarrow> (sys_call list \<Rightarrow> int) \<Rightarrow> ('i, 'o) main_state \<Rightarrow> ('i, 'o) main_state option" where
  "check_on L Q wdt uptime s =
     (if \<not> mqtt_connected (mq s)
      then Option.bind (lib_call L (lib_abort L) Mqtt_abort (mq s)) (\<lambda>(rc, m). connect_on L Q wdt uptime (s\<lparr>mq := m\<rparr>))
      else connect_on L Q wdt uptime s)"

definition input_on ::
  "mqtt_lib \<Rightarrow> ('o, OutMsg) msgq \<Rightarrow> bool \<Rightarrow> (sys_call list \<Rightarrow> int) \<Rightarrow> ('i, 'o) main_state \<Rightarrow> ('i, 'o) main_state option" where
  "input_on L Q wdt uptime s =
     Option.bind (lib_call L (lib_input L) Mqtt_input (mq s)) (\<lambda>(rc, m). check_on L Q wdt uptime (s\<lparr>mq := m\<rparr>))"

definition poll_on ::
  "mqtt_lib \<Rightarrow> ('o, OutMsg) msgq \<Rightarrow> bool \<Rightarrow> (sys_call list \<Rightarrow> int) \<Rightarrow> ('i, 'o) main_state \<Rightarrow> ('i, 'o) main_state option" where
  "poll_on L Q wdt uptime s =
     (let (rc, m) = poll_mqtt_socket L MSECS_NET_POLL_TIMEOUT (mq s)
      in (if rc > 0 then input_on else check_on) L Q wdt uptime (s\<lparr>mq := m\<rparr>))"

definition process_on ::
  "mqtt_lib \<Rightarrow> ('o, OutMsg) msgq \<Rightarrow> bool \<Rightarrow> (sys_call list \<Rightarrow> int) \<Rightarrow> ('i, 'o) main_state \<Rightarrow> ('i, 'o) main_state option" where
  "process_on L Q wdt uptime s =
     Option.bind (coo_mqtt_process L (mq s)) (\<lambda>(rc, m). (if rc \<noteq> 0 then finish L else serve L Q wdt uptime) (s\<lparr>mq := m\<rparr>))"

fun rest ::
  "mqtt_lib \<Rightarrow> ('o, OutMsg) msgq \<Rightarrow> bool \<Rightarrow> (sys_call list \<Rightarrow> int) \<Rightarrow> main_pc \<Rightarrow> ('i, 'o) main_state \<Rightarrow>
     ('i, 'o) main_state option" where
  "rest L Q wdt uptime Starting s = main_session L Q wdt uptime s"
| "rest L Q wdt uptime Connecting s = connect_on L Q wdt uptime s"
| "rest L Q wdt uptime Backing_off s = connect_on L Q wdt uptime (s\<lparr>mq := log_call (K_msleep MSECS_WAIT_RECONNECT) (mq s)\<rparr>)"
| "rest L Q wdt uptime Awaiting_connack s = poll_on L Q wdt uptime s"
| "rest L Q wdt uptime Reading_connack s = input_on L Q wdt uptime s"
| "rest L Q wdt uptime Checking_connack s = check_on L Q wdt uptime s"
| "rest L Q wdt uptime Subscribing s = serve L Q wdt uptime (s\<lparr>mq := snd (coo_mqtt_subscribe L (mq s))\<rparr>)"
| "rest L Q wdt uptime Serving s = serve L Q wdt uptime s"
| "rest L Q wdt uptime Draining s = Option.bind (drain_outbound L Q s) (process_on L Q wdt uptime)"
| "rest L Q wdt uptime Polling s = process_on L Q wdt uptime s"
| "rest L Q wdt uptime Reading s =
     Option.bind (lib_call L (lib_input L) Mqtt_input (mq s)) (\<lambda>(rc, m).
       (if rc \<noteq> 0 \<or> ZSOCK_POLLHUP \<in> set (pfd_revents m) \<or> ZSOCK_POLLERR \<in> set (pfd_revents m)
        then finish L else serve L Q wdt uptime) (s\<lparr>mq := m\<rparr>))"
| "rest L Q wdt uptime Pinging s =
     Option.bind (lib_call L (lib_live L) Mqtt_live (mq s)) (\<lambda>(rc, m).
       (if rc \<noteq> 0 then finish L else serve L Q wdt uptime) (s\<lparr>mq := m\<rparr>))"
| "rest L Q wdt uptime Disconnecting s = finish L s"

lemma session_on: "main_session L Q wdt uptime s = connect_on L Q wdt uptime (s\<lparr>mq := (mq s)\<lparr>mqtt_connected := False\<rparr>\<rparr>)"
  by (simp add: main_session_def connect_on_def coo_mqtt_connect_def serve_def finish_def [abs_def] case_prod_unfold Let_def
      Option.bind_assoc)

lemma connect_on_step:
  "connect_on L Q wdt uptime s =
     (if \<not> mqtt_connected (mq s)
      then Option.bind (lib_call L (lib_connect L) Mqtt_connect (mq s)) (\<lambda>(rc, m).
             rest L Q wdt uptime (if rc \<noteq> 0 then Backing_off else Awaiting_connack) (s\<lparr>mq := m\<rparr>))
      else rest L Q wdt uptime Subscribing s)"
proof (cases "mqtt_connected (mq s)")
  case True
  then show ?thesis unfolding connect_on_def by (subst connect_until.simps) simp
next
  case False
  have c: "connect_on L Q wdt uptime s = Option.bind (connect_round L (mq s)) (\<lambda>m. connect_on L Q wdt uptime (s\<lparr>mq := m\<rparr>))"
    unfolding connect_on_def using False by (subst connect_until.simps) (simp add: Option.bind_assoc)
  show ?thesis
    unfolding c connect_round_def
    using False
    by (auto simp: Option.bind_assoc case_prod_unfold Let_def poll_on_def input_on_def check_on_def bind_map_option comp_def
        intro!: Option.bind_cong)
qed

lemma process_on_step:
  "process_on L Q wdt uptime s =
     (let (rc, m) = poll_mqtt_socket L (lib_keepalive L (calls (mq s))) (mq s)
      in rest L Q wdt uptime (if rc \<noteq> 0 then (if ZSOCK_POLLIN \<in> set (pfd_revents m) then Reading else Serving) else Pinging)
           (s\<lparr>mq := m\<rparr>))"
  by (auto simp: process_on_def coo_mqtt_process_def ENOTCONN_def Let_def case_prod_unfold Option.bind_assoc intro!: Option.bind_cong)

lemma serve_step:
  "serve L Q wdt uptime s =
     (if coo_mqtt_is_connected (mq s) then rest L Q wdt uptime Draining (feed_watchdog wdt uptime s)
      else finish L s)"
  unfolding serve_def
  by (subst main_inner.simps) (auto simp: process_on_def serve_def Option.bind_assoc case_prod_unfold intro!: Option.bind_cong)

lemma drain_step:
  "rest L Q wdt uptime Draining s =
     (case q_get Q (snd (user_state (mq s))) of
        None \<Rightarrow> process_on L Q wdt uptime s
      | Some (om, outq) \<Rightarrow>
          Option.bind (lib_call L (lib_publish L) (Mqtt_publish (publish_param om (next_id s)))
              ((mq s)\<lparr>user_state := (fst (user_state (mq s)), outq)\<rparr>)) (\<lambda>(rc, m).
            rest L Q wdt uptime Draining (s\<lparr>mq := m, next_id := next_id s + 1\<rparr>)))"
  by (subst rest.simps, subst drain_outbound.simps)
     (auto simp: Option.bind_assoc case_prod_unfold Let_def split: option.split intro!: Option.bind_cong)

lemmas tick_defs = main_tick_def Let_def case_prod_unfold bind_map_option comp_def

text \<open>What is left before a tick is what is left after it.\<close>

lemma rest_tick:
  "rest L Q wdt uptime pc s =
     Option.bind (main_tick L Q wdt uptime (pc, s)) (\<lambda>(pc', s'). if pc' = Starting then Some s' else rest L Q wdt uptime pc' s')"
proof (cases pc)
  case Starting
  then show ?thesis by (simp add: session_on tick_defs)
next
  case Connecting
  then show ?thesis using connect_on_step [of L Q wdt uptime s] by (auto simp: tick_defs intro!: Option.bind_cong)
next
  case Checking_connack
  then show ?thesis by (auto simp: tick_defs check_on_def intro!: Option.bind_cong)
next
  case Serving
  then show ?thesis using serve_step [of L Q wdt uptime s] by (simp add: tick_defs)
next
  case Draining
  show ?thesis
    unfolding Draining by (subst drain_step) (auto simp: tick_defs split: option.split intro!: Option.bind_cong)
next
  case Polling
  then show ?thesis by (auto simp: tick_defs process_on_step)
qed (auto simp: tick_defs poll_on_def input_on_def finish_def map_conv_bind_option intro!: Option.bind_cong)

lemma ticks_to_sessions:
  "main_ticks n L Q wdt uptime c = Some (Starting, s') \<Longrightarrow>
     \<exists>k. (if fst c = Starting then main_sessions k L Q wdt uptime (snd c)
          else Option.bind (rest L Q wdt uptime (fst c) (snd c)) (main_sessions k L Q wdt uptime)) = Some s'"
proof (induction n arbitrary: c)
  case 0
  then show ?case by (auto intro: exI [of _ 0])
next
  case (Suc n)
  then obtain c1 where c1: "main_tick L Q wdt uptime c = Some c1" "main_ticks n L Q wdt uptime c1 = Some (Starting, s')"
    by (auto simp: bind_eq_Some_conv)
  from Suc.IH [OF c1(2)] obtain k where k: "(if fst c1 = Starting then main_sessions k L Q wdt uptime (snd c1)
      else Option.bind (rest L Q wdt uptime (fst c1) (snd c1)) (main_sessions k L Q wdt uptime)) = Some s'" by blast
  then have "Option.bind (rest L Q wdt uptime (fst c) (snd c)) (main_sessions k L Q wdt uptime) = Some s'"
    unfolding rest_tick [of L Q wdt uptime "fst c" "snd c"] using c1(1) by (auto simp: case_prod_unfold split: if_splits)
  then show ?case
    by (cases "fst c = Starting") (auto intro: exI [of _ "Suc k"])
qed

definition leads_to ::
  "mqtt_lib \<Rightarrow> ('o, OutMsg) msgq \<Rightarrow> bool \<Rightarrow> (sys_call list \<Rightarrow> int) \<Rightarrow> main_pc \<times> ('i, 'o) main_state \<Rightarrow>
     main_pc \<times> ('i, 'o) main_state \<Rightarrow> bool" where
  "leads_to L Q wdt uptime c c' \<longleftrightarrow> (\<exists>n. main_ticks n L Q wdt uptime c = Some c')"

lemma leads_refl: "leads_to L Q wdt uptime c c"
  unfolding leads_to_def by (metis main_ticks.simps(1))

lemma leads_step:
  assumes "main_tick L Q wdt uptime c = Some c1" and "leads_to L Q wdt uptime c1 c'"
  shows "leads_to L Q wdt uptime c c'"
proof -
  obtain n where "main_ticks n L Q wdt uptime c1 = Some c'" using assms(2) unfolding leads_to_def by blast
  with assms(1) have "main_ticks (Suc n) L Q wdt uptime c = Some c'" by simp
  then show ?thesis unfolding leads_to_def by blast
qed

lemma leads_trans:
  assumes "leads_to L Q wdt uptime c c1" and "leads_to L Q wdt uptime c1 c2"
  shows "leads_to L Q wdt uptime c c2"
proof -
  have "main_ticks n L Q wdt uptime c = Some c1 \<Longrightarrow> leads_to L Q wdt uptime c c2" for n
  proof (induction n arbitrary: c)
    case (Suc n)
    then show ?case by (auto simp: bind_eq_Some_conv intro: leads_step)
  qed (use assms(2) in simp)
  with assms(1) show ?thesis unfolding leads_to_def by blast
qed

lemma leads_tick: "main_tick L Q wdt uptime c = Some c' \<Longrightarrow> leads_to L Q wdt uptime c c'"
  by (blast intro: leads_step leads_refl)

lemma round_ticks:
  assumes "connect_round L (mq s) = Some m" and "\<not> mqtt_connected (mq s)"
  shows "leads_to L Q wdt uptime (Connecting, s) (Connecting, s\<lparr>mq := m\<rparr>)"
proof -
  obtain rc t where t: "lib_call L (lib_connect L) Mqtt_connect (mq s) = Some (rc, t)"
    using assms(1) by (auto simp: connect_round_def bind_eq_Some_conv)
  show ?thesis
  proof (cases "rc = 0")
    case False
    then have "m = log_call (K_msleep MSECS_WAIT_RECONNECT) t" using assms(1) t by (simp add: connect_round_def)
    then have 2: "main_tick L Q wdt uptime (Backing_off, s\<lparr>mq := t\<rparr>) = Some (Connecting, s\<lparr>mq := m\<rparr>)"
      by (simp add: tick_defs)
    have 1: "main_tick L Q wdt uptime (Connecting, s) = Some (Backing_off, s\<lparr>mq := t\<rparr>)"
      using False t assms(2) by (simp add: tick_defs)
    show ?thesis by (rule leads_step [OF 1 leads_tick [OF 2]])
  next
    case True
    let ?rc = "fst (poll_mqtt_socket L MSECS_NET_POLL_TIMEOUT t)"
    let ?p = "snd (poll_mqtt_socket L MSECS_NET_POLL_TIMEOUT t)"
    obtain q where q: "(if ?rc > 0 then map_option snd (lib_call L (lib_input L) Mqtt_input ?p) else Some ?p) = Some q"
      "(if \<not> mqtt_connected q then map_option snd (lib_call L (lib_abort L) Mqtt_abort q) else Some q) = Some m"
      using assms t True by (auto simp: connect_round_def Let_def case_prod_unfold bind_eq_Some_conv)
    have 1: "main_tick L Q wdt uptime (Connecting, s) = Some (Awaiting_connack, s\<lparr>mq := t\<rparr>)"
      using t assms(2) True by (simp add: main_tick_def Let_def)
    have 2: "main_tick L Q wdt uptime (Awaiting_connack, s\<lparr>mq := t\<rparr>) =
        Some (if ?rc > 0 then Reading_connack else Checking_connack, s\<lparr>mq := ?p\<rparr>)"
      by (simp add: tick_defs)
    have 3: "leads_to L Q wdt uptime (if ?rc > 0 then Reading_connack else Checking_connack, s\<lparr>mq := ?p\<rparr>)
        (Checking_connack, s\<lparr>mq := q\<rparr>)"
      using q(1) by (auto simp: tick_defs leads_refl split: if_splits intro!: leads_tick)
    have 4: "main_tick L Q wdt uptime (Checking_connack, s\<lparr>mq := q\<rparr>) = Some (Connecting, s\<lparr>mq := m\<rparr>)"
      using q(2) by (auto simp: tick_defs split: if_splits)
    show ?thesis by (rule leads_step [OF 1 leads_step [OF 2 leads_trans [OF 3 leads_tick [OF 4]]]])
  qed
qed

lemma connect_ticks: 
  "connect_until L m = Some m' \<Longrightarrow> leads_to L Q wdt uptime (Connecting, s\<lparr>mq := m\<rparr>) (Subscribing, s\<lparr>mq := m'\<rparr>)"
proof (induction rule: connect_until.raw_induct [rotated, consumes 1, case_names step])
  case (step f L m m')
  show ?case
  proof (cases "mqtt_connected m")
    case False
    with step(2) obtain t where t: "connect_round L m = Some t" "f L t = Some m'" by (auto simp: bind_eq_Some_conv)
    have "leads_to L Q wdt uptime (Connecting, s\<lparr>mq := m\<rparr>) (Connecting, s\<lparr>mq := t\<rparr>)"
      using round_ticks [of L "s\<lparr>mq := m\<rparr>" t] t(1) False by simp
    from leads_trans [OF this step(1) [OF t(2)]] show ?thesis .
  qed (use step(2) in \<open>auto simp: main_tick_def Let_def intro!: leads_tick\<close>)
qed

lemma drain_ticks: "drain_outbound L Q s = Some s' \<Longrightarrow> leads_to L Q wdt uptime (Draining, s) (Polling, s')"
proof (induction rule: drain_outbound.raw_induct [rotated, consumes 1, case_names step])
  case (step f L Q s s')
  show ?case
  proof (cases "q_get Q (snd (user_state (mq s)))")
    case (Some r)
    with step(2) obtain rc m where m: "lib_call L (lib_publish L) (Mqtt_publish (publish_param (fst r) (next_id s)))
           ((mq s)\<lparr>user_state := (fst (user_state (mq s)), snd r)\<rparr>) = Some (rc, m)"
      "f L Q (s\<lparr>mq := m, next_id := next_id s + 1\<rparr>) = Some s'"
      by (auto simp: Let_def bind_eq_Some_conv case_prod_unfold)
    have "main_tick L Q wdt uptime (Draining, s) = Some (Draining, s\<lparr>mq := m, next_id := next_id s + 1\<rparr>)"
      using Some m(1) by (simp add: tick_defs)
    from leads_step [OF this step(1) [OF m(2)]] show ?thesis .
  qed (use step(2) in \<open>auto simp: main_tick_def Let_def intro!: leads_tick\<close>)
qed

lemma process_ticks:
  assumes "coo_mqtt_process L (mq s) = Some (rc, m)"
  shows "leads_to L Q wdt uptime (Polling, s) (if rc \<noteq> 0 then Disconnecting else Serving, s\<lparr>mq := m\<rparr>)"
proof -
  let ?rc = "fst (poll_mqtt_socket L (lib_keepalive L (calls (mq s))) (mq s))"
  let ?p = "snd (poll_mqtt_socket L (lib_keepalive L (calls (mq s))) (mq s))"
  have 1: "main_tick L Q wdt uptime (Polling, s) =
      Some (if ?rc \<noteq> 0 then (if ZSOCK_POLLIN \<in> set (pfd_revents ?p) then Reading else Serving) else Pinging, s\<lparr>mq := ?p\<rparr>)"
    by (simp add: tick_defs)
  have "leads_to L Q wdt uptime
      (if ?rc \<noteq> 0 then (if ZSOCK_POLLIN \<in> set (pfd_revents ?p) then Reading else Serving) else Pinging, s\<lparr>mq := ?p\<rparr>)
      (if rc \<noteq> 0 then Disconnecting else Serving, s\<lparr>mq := m\<rparr>)"
    using assms
    by (auto simp: coo_mqtt_process_def tick_defs bind_eq_Some_conv ENOTCONN_def leads_refl split: if_splits intro!: leads_tick)
  with 1 show ?thesis by (rule leads_step)
qed

lemma inner_ticks: "main_inner L Q wdt uptime s = Some s' \<Longrightarrow> leads_to L Q wdt uptime (Serving, s) (Disconnecting, s')"
proof (induction rule: main_inner.raw_induct [rotated, consumes 1, case_names step])
  case (step f L Q wdt uptime s s')
  show ?case
  proof (cases "coo_mqtt_is_connected (mq s)")
    case True
    with step(2) obtain t rc m where t: "drain_outbound L Q (feed_watchdog wdt uptime s) = Some t"
      "coo_mqtt_process L (mq t) = Some (rc, m)" "(if rc \<noteq> 0 then Some (t\<lparr>mq := m\<rparr>) else f L Q wdt uptime (t\<lparr>mq := m\<rparr>)) = Some s'"
      by (auto simp: bind_eq_Some_conv)
    have "main_tick L Q wdt uptime (Serving, s) = Some (Draining, feed_watchdog wdt uptime s)"
      using True by (simp add: main_tick_def Let_def)
    from leads_step [OF this leads_trans [OF drain_ticks [OF t(1)] process_ticks [OF t(2)]]]
    have "leads_to L Q wdt uptime (Serving, s) (if rc \<noteq> 0 then Disconnecting else Serving, t\<lparr>mq := m\<rparr>)" .
    with t(3) step(1) show ?thesis by (auto split: if_splits intro: leads_trans)
  qed (use step(2) in \<open>auto simp: main_tick_def Let_def intro!: leads_tick\<close>)
qed

lemma session_ticks:
  assumes "main_session L Q wdt uptime s = Some s'"
  shows "leads_to L Q wdt uptime (Starting, s) (Starting, s')"
proof -
  let ?s0 = "s\<lparr>mq := (mq s)\<lparr>mqtt_connected := False\<rparr>\<rparr>"
  obtain m t rc m' where m: "connect_until L ((mq s)\<lparr>mqtt_connected := False\<rparr>) = Some m"
    "main_inner L Q wdt uptime (s\<lparr>mq := snd (coo_mqtt_subscribe L m)\<rparr>) = Some t"
    "lib_call L (lib_disconnect L) Mqtt_disconnect (mq t) = Some (rc, m')" "s' = t\<lparr>mq := m'\<rparr>"
    using assms by (auto simp: main_session_def coo_mqtt_connect_def bind_eq_Some_conv case_prod_unfold Let_def)
  have 1: "main_tick L Q wdt uptime (Starting, s) = Some (Connecting, ?s0)" by (simp add: main_tick_def)
  have 2: "main_tick L Q wdt uptime (Subscribing, s\<lparr>mq := m\<rparr>) = Some (Serving, s\<lparr>mq := snd (coo_mqtt_subscribe L m)\<rparr>)"
    by (simp add: main_tick_def)
  have 3: "main_tick L Q wdt uptime (Disconnecting, t) = Some (Starting, s')"
    using m(3,4) by (simp add: main_tick_def Let_def)
  show ?thesis
    using leads_step [OF 1 leads_trans [OF connect_ticks [OF m(1)] leads_step [OF 2 leads_trans [OF inner_ticks [OF m(2)] leads_tick [OF 3]]]]] .
qed

text \<open>
  C9: The main thread, cut at its blocking calls, is the main thread: for every library and every clock the states at the head of the
  endless loop that ticks reach are those that whole rounds of the loop reach. So nothing is lost, and nothing
  added, when the other threads are let in between two ticks.
\<close>

theorem ticks_are_rounds:
  "(\<exists>n. main_ticks n L Q wdt uptime (Starting, s) = Some (Starting, s')) \<longleftrightarrow>
   (\<exists>k. main_sessions k L Q wdt uptime s = Some s')"
proof
  assume "\<exists>n. main_ticks n L Q wdt uptime (Starting, s) = Some (Starting, s')"
  then show "\<exists>k. main_sessions k L Q wdt uptime s = Some s'" using ticks_to_sessions by fastforce
next
  have "main_sessions k L Q wdt uptime s = Some s' \<Longrightarrow> leads_to L Q wdt uptime (Starting, s) (Starting, s')" for k
  proof (induction k arbitrary: s)
    case (Suc k)
    then show ?case by (auto simp: bind_eq_Some_conv intro: leads_trans session_ticks)
  qed (simp add: leads_refl)
  then show "\<exists>k. main_sessions k L Q wdt uptime s = Some s' \<Longrightarrow>
      \<exists>n. main_ticks n L Q wdt uptime (Starting, s) = Some (Starting, s')"
    unfolding leads_to_def by blast
qed

section \<open>The threads together\<close>

record ('i, 'o, 'p) firmware =
  fw_pc :: main_pc
  fw_main :: "('i, 'o) main_state"     \<comment> \<open>with the two queues the main thread shares\<close>
  fw_tib :: tib
  fw_samples :: 'p
  fw_executing :: "OutMsg option"

definition app_view :: "('i, 'o, 'p) firmware \<Rightarrow> ('i, 'o, 'p) app" where
  "app_view f =
     \<lparr>app_tib = fw_tib f, inbound = fst (user_state (mq (fw_main f))), outbound = snd (user_state (mq (fw_main f))),
      samples = fw_samples f, executing = fw_executing f, msg_id = next_id (fw_main f),
      published = published_in (calls (mq (fw_main f)))\<rparr>"

definition with_app :: "('i, 'o, 'p) firmware \<Rightarrow> ('i, 'o, 'p) app \<Rightarrow> ('i, 'o, 'p) firmware" where
  "with_app f a =
     f\<lparr>fw_main := (fw_main f)\<lparr>mq := (mq (fw_main f))\<lparr>user_state := (inbound a, outbound a)\<rparr>\<rparr>,
       fw_tib := app_tib a, fw_samples := samples a, fw_executing := executing a\<rparr>"

text \<open>
  The steps of the other threads, between two of their blocking calls each. The executor and the photodiode thread
  have a lower priority than the main thread, which they do not interrupt; the work item runs on the system's work queue
  without being interrupted.
\<close>

inductive thread_step ::
  "json_lib \<Rightarrow> ('i, Command) msgq \<Rightarrow> ('o, OutMsg) msgq \<Rightarrow> ('p, OutMsg) msgq \<Rightarrow>
     ('i, 'o, 'p) app \<Rightarrow> ('i, 'o, 'p) app \<Rightarrow> bool"
  for J I Q P where
  executor: "json R = J \<Longrightarrow> executor_step R I Q a = Some a' \<Longrightarrow> thread_step J I Q P a a'"
| photodiode: "photodiode_round P r (samples a) = Some (pq, pause) \<Longrightarrow> thread_step J I Q P a (a\<lparr>samples := pq\<rparr>)"
| work_item: "forward_samples P Q (samples a) (outbound a) = Some (pq, outq) \<Longrightarrow>
     thread_step J I Q P a (a\<lparr>samples := pq, outbound := outq\<rparr>)"

inductive fw_step ::
  "mqtt_lib \<Rightarrow> json_lib \<Rightarrow> ('i, Command) msgq \<Rightarrow> ('o, OutMsg) msgq \<Rightarrow> ('p, OutMsg) msgq \<Rightarrow> bool \<Rightarrow> (sys_call list \<Rightarrow> int) \<Rightarrow>
     ('i, 'o, 'p) firmware \<Rightarrow> ('i, 'o, 'p) firmware \<Rightarrow> bool"
  for L J I Q P wdt uptime where
  main_thread: "main_tick L Q wdt uptime (fw_pc f, fw_main f) = Some (pc, s) \<Longrightarrow>
     fw_step L J I Q P wdt uptime f (f\<lparr>fw_pc := pc, fw_main := s\<rparr>)"
| other_thread: "thread_step J I Q P (app_view f) a \<Longrightarrow> fw_step L J I Q P wdt uptime f (with_app f a)"

inductive fw_reachable ::
  "mqtt_lib \<Rightarrow> json_lib \<Rightarrow> ('i, Command) msgq \<Rightarrow> ('o, OutMsg) msgq \<Rightarrow> ('p, OutMsg) msgq \<Rightarrow> bool \<Rightarrow> (sys_call list \<Rightarrow> int) \<Rightarrow>
     ('i, 'o, 'p) firmware \<Rightarrow> ('i, 'o, 'p) firmware \<Rightarrow> bool"
  for L J I Q P wdt uptime f0 where
  start: "fw_reachable L J I Q P wdt uptime f0 f0"
| step: "fw_reachable L J I Q P wdt uptime f0 f \<Longrightarrow> fw_step L J I Q P wdt uptime f f' \<Longrightarrow> fw_reachable L J I Q P wdt uptime f0 f'"

inductive_cases thread_stepE: "thread_step J I Q P a a'"
inductive_cases fw_stepE: "fw_step L J I Q P wdt uptime f f'"

lemma tick_moves:
  assumes "main_tick L Q wdt uptime (pc, s) = Some (pc', s')"
  shows "main_moves J I Q P a s s'"
proof -
  have call: "main_moves J I Q P a s (s\<lparr>mq := m\<rparr>)"
    if "lib_call L f c (mq s) = Some (rc, m)" "published_in [c] = []" for f c rc m
    by (rule main_moves_mq [OF moves_lib_call [OF that]])
  have poll: "main_moves J I Q P a s (s\<lparr>mq := snd (poll_mqtt_socket L t (mq s))\<rparr>)" for t
    by (rule main_moves_mq [OF moves_poll])
  show ?thesis
  proof (cases pc)
    case Starting
    then show ?thesis
      using assms main_moves_mq [OF moves_same, of a s "(mq s)\<lparr>mqtt_connected := False\<rparr>"]
      by (auto simp: main_tick_def seen_def)
  next
    case Backing_off
    then show ?thesis using assms by (auto simp: main_tick_def intro: main_moves_mq [OF moves_log])
  next
    case Subscribing
    then show ?thesis using assms main_moves_mq [OF moves_subscribe] by (auto simp: main_tick_def)
  next
    case Serving
    then show ?thesis using assms feed_moves by (auto simp: main_tick_def main_moves_refl split: if_splits)
  next
    case Draining
    then show ?thesis
      using assms publish_moves by (fastforce simp: main_tick_def main_moves_refl Let_def split: option.splits)
  qed (use assms call poll in \<open>auto simp: main_tick_def Let_def case_prod_unfold main_moves_refl split: if_splits\<close>)
qed

lemma view_seen: "app_view (f\<lparr>fw_pc := pc, fw_main := s\<rparr>) = seen (app_view f) (next_id s) (mq s)"
  by (simp add: app_view_def seen_def)

lemma view_seen_same: "seen (app_view f) (next_id (fw_main f)) (mq (fw_main f)) = app_view f"
  by (simp add: app_view_def seen_def)

lemma thread_is_app_step: "thread_step J I Q P a a' \<Longrightarrow> app_step J I Q P a a'"
  by (induction rule: thread_step.induct) (blast intro: app_step.intros)+

lemma thread_keeps: "thread_step J I Q P a a' \<Longrightarrow> msg_id a' = msg_id a \<and> published a' = published a"
  by (induction rule: thread_step.induct)
     (auto simp: executor_step_def Let_def case_prod_unfold split: option.splits if_splits)

lemma view_with_app:
  "msg_id a = msg_id (app_view f) \<Longrightarrow> published a = published (app_view f) \<Longrightarrow> app_view (with_app f a) = a"
  by (simp add: app_view_def with_app_def)

lemma fw_step_refines:
  assumes "fw_step L J I Q P wdt uptime f f'" and "user_mqtt_cb (mq (fw_main f)) = Some (mqtt_command_handler J I Q)"
  shows "app_reachable J I Q P (app_view f) (app_view f') \<and> user_mqtt_cb (mq (fw_main f')) = Some (mqtt_command_handler J I Q)"
  using assms(1)
proof cases
  case (main_thread pc s)
  from tick_moves [OF main_thread(2), of J I P "app_view f"] assms(2) show ?thesis
    by (simp add: main_moves_def main_thread(1) view_seen view_seen_same)
next
  case (other_thread a)
  have "app_view f' = a" using thread_keeps [OF other_thread(2)] by (simp add: other_thread(1) view_with_app)
  moreover have "user_mqtt_cb (mq (fw_main f')) = user_mqtt_cb (mq (fw_main f))" by (simp add: other_thread(1) with_app_def)
  ultimately show ?thesis
    using app_reachable_step [OF thread_is_app_step [OF other_thread(2)]] assms(2) by simp
qed

lemma fw_reachable_refines:
  assumes "fw_reachable L J I Q P wdt uptime f0 f" and "user_mqtt_cb (mq (fw_main f0)) = Some (mqtt_command_handler J I Q)"
  shows "app_reachable J I Q P (app_view f0) (app_view f) \<and> user_mqtt_cb (mq (fw_main f)) = Some (mqtt_command_handler J I Q)"
  using assms
proof induction
  case (step f f')
  with fw_step_refines [OF step.hyps(2)] show ?case by (blast intro: app_reachable_trans)
qed (simp add: app_reachable.start)

lemma fw_reachable_trans:
  "fw_reachable L J I Q P wdt uptime f1 f2 \<Longrightarrow> fw_reachable L J I Q P wdt uptime f0 f1 \<Longrightarrow> fw_reachable L J I Q P wdt uptime f0 f2"
  by (induction rule: fw_reachable.induct) (auto intro: fw_reachable.step)

lemma ticks_reachable:
  "main_ticks n L Q wdt uptime (fw_pc f, fw_main f) = Some (pc, s) \<Longrightarrow>
     fw_reachable L J I Q P wdt uptime f (f\<lparr>fw_pc := pc, fw_main := s\<rparr>)"
proof (induction n arbitrary: f)
  case (Suc n)
  then obtain pc1 s1 where c1: "main_tick L Q wdt uptime (fw_pc f, fw_main f) = Some (pc1, s1)"
    "main_ticks n L Q wdt uptime (pc1, s1) = Some (pc, s)"
    by (auto simp: bind_eq_Some_conv)
  let ?f = "f\<lparr>fw_pc := pc1, fw_main := s1\<rparr>"
  have one: "fw_reachable L J I Q P wdt uptime f ?f"
    by (rule fw_reachable.step [OF fw_reachable.start fw_step.main_thread [OF c1(1)]])
  have "fw_reachable L J I Q P wdt uptime ?f (?f\<lparr>fw_pc := pc, fw_main := s\<rparr>)"
    by (rule Suc.IH) (use c1(2) in simp)
  from fw_reachable_trans [OF this one] show ?case by simp
qed (auto intro: fw_reachable.start)

section \<open>From power-up\<close>

text \<open>The threads when \<open>main\<close> enters its loop; the photodiode thread may have queued samples before.\<close>

definition fw_start :: "tib \<Rightarrow> ('i, 'o) main_state \<Rightarrow> 'p \<Rightarrow> ('i, 'o, 'p) firmware" where
  "fw_start t s pq = \<lparr>fw_pc = Starting, fw_main = s, fw_tib = t, fw_samples = pq, fw_executing = None\<rparr>"

lemma main_init_facts:
  assumes "main_init B iface reads resolve J I Q m0 = Some (Inr (t, s))"
  shows "boot B = Some t" and "user_state (mq s) = user_state m0" and "calls (mq s) = calls m0" and "next_id s = 1"
    and "user_mqtt_cb (mq s) = Some (mqtt_command_handler J I Q)"
  using assms
  by (auto simp: main_init_def coo_mqtt_set_message_callback_def coo_mqtt_add_subscription_def
      coo_mqtt_init_def Let_def split: option.splits if_splits prod.splits)

lemma fw_start_inv:
  assumes "main_init B iface reads resolve J I Q m0 = Some (Inr (t, s))" and "expander_ready B"
    and "user_state m0 = (inq, outq)" and "calls m0 = []" and "ci inq = []" and "co outq = []" and "list_all out_msg_wf (cp pq)"
  shows "app_inv ci co cp (app_view (fw_start t s pq))"
proof -
  note f = main_init_facts [OF assms(1)]
  have "app_start B inq outq pq = Some (app_view (fw_start t s pq))"
    using f assms(3,4) by (simp add: app_start_def app_view_def fw_start_def)
  from app_start_inv [where ci = ci and co = co and cp = "\<lambda>_. []", OF this assms(2,5,6) refl] assms(7) show ?thesis
    by (simp add: app_inv_def) (simp add: app_view_def fw_start_def)
qed

text \<open>
  C4: Whatever holds of every state the application can reach holds of the firmware: from power-up, the main thread, cut at each
  of its blocking calls, and the other threads in between, in any order, take exactly such steps.
\<close>

theorem firmware_refines:
  assumes "main_init B iface reads resolve J I Q m0 = Some (Inr (t, s))"
    and "fw_reachable L J I Q P wdt uptime (fw_start t s pq) f"
  shows "app_reachable J I Q P (app_view (fw_start t s pq)) (app_view f)"
  using fw_reachable_refines [OF assms(2)] main_init_facts(5) [OF assms(1)] by (simp add: fw_start_def)

lemma fw_inv:
  assumes "main_init B iface reads resolve J I Q m0 = Some (Inr (t, s))" and "expander_ready B"
    and "user_state m0 = (inq, outq)" and "calls m0 = []" and "ci inq = []" and "co outq = []" and "list_all out_msg_wf (cp pq)"
    and "msgq_laws I ci idepth" and "msgq_laws Q co odepth" and "msgq_laws P cp pdepth" and "0 < pdepth" and "json_in_place J"
    and "fw_reachable L J I Q P wdt uptime (fw_start t s pq) f"
  shows "app_inv ci co cp (app_view f)" and "user_mqtt_cb (mq (fw_main f)) = Some (mqtt_command_handler J I Q)"
proof -
  have cb: "user_mqtt_cb (mq (fw_main (fw_start t s pq))) = Some (mqtt_command_handler J I Q)"
    using main_init_facts(5) [OF assms(1)] by (simp add: fw_start_def)
  note r = fw_reachable_refines [OF assms(13) cb]
  show "user_mqtt_cb (mq (fw_main f)) = Some (mqtt_command_handler J I Q)" using r by simp
  show "app_inv ci co cp (app_view f)"
    by (rule app_reachable_inv [OF conjunct1 [OF r] fw_start_inv [where ci = ci and co = co and cp = cp, OF assms(1-7)] assms(8-10,12,11)])
qed

text \<open>
  C1: From power-up on, when \<open>main\<close> gets through its initialisation with empty queues and the expander ready: in every state of
  the threads, however they interleave and whatever the broker, the network and the library do, the box keeps its
  invariant, the queues hold only well-formed commands and messages, and everything published has lengths inside its arrays.
\<close>

theorem firmware_invariant:
  assumes "main_init B iface reads resolve J I Q m0 = Some (Inr (t, s))" and "expander_ready B"
    and "user_state m0 = (inq, outq)" and "calls m0 = []" and "ci inq = []" and "co outq = []" and "list_all out_msg_wf (cp pq)"
    and "msgq_laws I ci idepth" and "msgq_laws Q co odepth" and "msgq_laws P cp pdepth" and "0 < pdepth" and "json_in_place J"
    and "fw_reachable L J I Q P wdt uptime (fw_start t s pq) f"
  shows "app_inv ci co cp (app_view f)"
  by (rule fw_inv(1) [OF assms])

text \<open>
  C5: No thread ever faults or hangs in a loop of its own: in every state the firmware can reach, the next step of the main
  thread, whatever it is, the next step of the executor, whatever the drivers do, the forwarding of the samples and a round of the
  photodiode thread are all defined.
\<close>

theorem firmware_never_faults:
  assumes "main_init B iface reads resolve J I Q m0 = Some (Inr (t, s))" and "expander_ready B"
    and "user_state m0 = (inq, outq)" and "calls m0 = []" and "ci inq = []" and "co outq = []" and "list_all out_msg_wf (cp pq)"
    and "msgq_laws I ci idepth" and "msgq_laws Q co odepth" and "msgq_laws P cp pdepth" and "0 < pdepth" and "json_in_place J"
    and "fw_reachable L J I Q P wdt uptime (fw_start t s pq) f" and "read_law L"
  shows "main_tick L Q wdt uptime (fw_pc f, fw_main f) \<noteq> None \<and> executor_step R I Q (app_view f) \<noteq> None \<and>
    forward_samples P Q (fw_samples f) (outbound (app_view f)) \<noteq> None \<and> photodiode_round P r (fw_samples f) \<noteq> None"
proof -
  note inv = fw_inv [OF assms(1-13)]
  let ?s = "fw_main f" and ?ok = "tib_consumer.consuming J I Q ci co idepth odepth"
  have m: "?ok (mq ?s)"
    using inv assms(8,9,12) by (simp add: tib_consumer.consuming_def queues_ok_def app_inv_def app_view_def)
  note call = tib_consumer.lib_call_consuming [OF assms(14)]
  have "lib_call L g c (mq ?s) \<noteq> None" for g c using call [OF m, of g c] by auto
  moreover have "lib_call L g c ((mq ?s)\<lparr>user_state := (fst (user_state (mq ?s)), oq)\<rparr>) \<noteq> None"
    if "q_get Q (snd (user_state (mq ?s))) = Some (om, oq)" for g c om oq
  proof -
    have "?ok ((mq ?s)\<lparr>user_state := (fst (user_state (mq ?s)), oq)\<rparr>)"
      using m msgq_get_Some [OF assms(9) that] by (simp add: tib_consumer.consuming_def queues_ok_def)
    from call [OF this] show ?thesis by force
  qed
  ultimately have 1: "main_tick L Q wdt uptime (fw_pc f, ?s) \<noteq> None"
    by (cases "fw_pc f") (auto simp: tick_defs split: option.split)
  have some: "dispatch_command R c u = None \<Longrightarrow> False" for c u using dispatch_returns [of R c u] by auto
  have 2: "executor_step R I Q (app_view f) \<noteq> None"
    by (auto simp: executor_step_def Let_def case_prod_unfold split: option.split dest: some)
  have 3: "forward_samples P Q (fw_samples f) (outbound (app_view f)) \<noteq> None"
    using forward_samples_ends [OF assms(10,9)] by (metis option.distinct(1))
  have queue: "\<exists>q'. enqueue_purging P (fw_samples f) x = Some q'" for x
    using enqueue_purging_ends [OF assms(10,11), of "fw_samples f" x] by auto
  have 4: "photodiode_round P r (fw_samples f) \<noteq> None"
    by (simp add: photodiode_round_def Let_def queue split: option.split)
  from 1 2 3 4 show ?thesis by blast
qed


section \<open>One run of the firmware\<close>

text \<open>
  A run: the box starts, the broker delivers a request and drops the connection, the executor takes the command.
\<close>

abbreviation tib_init ::
  "(int + tib \<times> (Command list, OutMsg list) main_state) option" where
  "tib_init \<equiv> main_init quiet_platform True (\<lambda>i. i = 3)
     (\<lambda>host port. (0, Some \<lparr>sin_family = AF_INET, sin_addr = 1, sin_port = 1883\<rparr>)) get_json (list_msgq 2) (list_msgq 8)
     (idle_client ([], []))"

abbreviation tib_reachable ::
  "(Command list, OutMsg list, OutMsg list) firmware \<Rightarrow> (Command list, OutMsg list, OutMsg list) firmware \<Rightarrow> bool" where
  "tib_reachable \<equiv> fw_reachable request_then_drop get_json (list_msgq 2) (list_msgq 8) (list_msgq 4) True (\<lambda>h. 100 * int (length h))"

lemma tib_init_eval: "\<exists>t. tib_init = Some (Inr (t, tib_main))"
proof -
  have ready: "expander_ready quiet_platform" by (simp add: quiet_platform_def)
  from setup_eval [OF this] obtain t where t: "boot quiet_platform = Some t" by (auto simp: boot_def case_prod_unfold)
  have "coo_network_wait_ready (\<lambda>i. i = 3) 0 = Some (0, 3)"
    using wait_forever_run [of 3 "\<lambda>i. i = 3" 0 0 0] by (simp add: coo_network_wait_ready_def)
  moreover have "fst (coo_mqtt_init (\<lambda>host port. (0, Some \<lparr>sin_family = AF_INET, sin_addr = 1, sin_port = 1883\<rparr>))
      ''hsfib-tib'' (idle_client ([] :: Command list, [] :: OutMsg list))) = 0"
    by (simp add: coo_mqtt_init_def Let_def)
  ultimately show ?thesis
    by (simp add: main_init_def t tib_main_def ready_client_def case_prod_unfold Let_def)
qed

lemma tib_run:
  "\<exists>t f. tib_init = Some (Inr (t, tib_main)) \<and> tib_reachable (fw_start t tib_main []) f \<and> inbound (app_view f) = [] \<and>
     length (in_hand (app_view f)) = 1"
proof -
  let ?J = get_json and ?I = "list_msgq 2 :: (Command list, Command) msgq" and ?Q = "list_msgq 8 :: (OutMsg list, OutMsg) msgq"
    and ?P = "list_msgq 4 :: (OutMsg list, OutMsg) msgq"
  obtain t where t: "tib_init = Some (Inr (t, tib_main))" using tib_init_eval by blast
  obtain s' where s': "main_session request_then_drop ?Q True (\<lambda>h. 100 * int (length h)) tib_main = Some s'"
    "length (fst (user_state (mq s'))) = 1" using tib_main_session by blast
  let ?f0 = "fw_start t tib_main [] :: (Command list, OutMsg list, OutMsg list) firmware"
  let ?f1 = "?f0\<lparr>fw_pc := Starting, fw_main := s'\<rparr>"
  obtain n where n: "main_ticks n request_then_drop ?Q True (\<lambda>h. 100 * int (length h)) (Starting, tib_main) = Some (Starting, s')"
    using session_ticks [OF s'(1)] unfolding leads_to_def by blast
  have one: "tib_reachable ?f0 ?f1"
    by (rule ticks_reachable) (use n in \<open>simp add: fw_start_def\<close>)
  obtain c where c: "fst (user_state (mq s')) = [c]" using s'(2) by (auto simp: length_Suc_conv)
  obtain om u where d: "dispatch_command (sample_runtime ?J) c t = Some (om, u)" using dispatch_returns by blast
  let ?a = "(app_view ?f1)\<lparr>inbound := [], app_tib := u, executing := Some om\<rparr>"
  have "executor_step (sample_runtime ?J) ?I ?Q (app_view ?f1) = Some ?a"
    using d c by (simp add: executor_step_def app_view_def fw_start_def list_msgq_def)
  then have th: "thread_step ?J ?I ?Q ?P (app_view ?f1) ?a"
    by (rule thread_step.executor [rotated]) (simp add: sample_runtime_def)
  have two: "tib_reachable ?f0 (with_app ?f1 ?a)"
    by (rule fw_reachable.step [OF one fw_step.other_thread [OF th]])
  have "app_view (with_app ?f1 ?a) = ?a" by (rule view_with_app) simp_all
  then show ?thesis using t two by (intro exI [of _ t] exI [of _ "with_app ?f1 ?a"]) (simp add: in_hand_def)
qed

theorem firmware_refines_witness:
  "\<exists>t f. tib_init = Some (Inr (t, tib_main)) \<and> length (in_hand (app_view f)) = 1 \<and>
     app_reachable get_json (list_msgq 2) (list_msgq 8) (list_msgq 4) (app_view (fw_start t tib_main [])) (app_view f)"
proof -
  obtain t f where r: "tib_init = Some (Inr (t, tib_main))" "tib_reachable (fw_start t tib_main []) f"
    "length (in_hand (app_view f)) = 1" using tib_run by blast
  from firmware_refines [OF r(1,2)] r show ?thesis by blast
qed

lemma idle_facts: "user_state (idle_client u) = u" "calls (idle_client u) = []" "expander_ready quiet_platform"
  by (simp_all add: idle_client_def quiet_platform_def)

theorem firmware_invariant_witness:
  "\<exists>t f. tib_init = Some (Inr (t, tib_main)) \<and> tib_reachable (fw_start t tib_main []) f \<and>
     length (in_hand (app_view f)) = 1 \<and> app_inv (\<lambda>q. q) (\<lambda>q. q) (\<lambda>q. q) (app_view f)"
proof -
  obtain t f where r: "tib_init = Some (Inr (t, tib_main))" "tib_reachable (fw_start t tib_main []) f"
    "length (in_hand (app_view f)) = 1" using tib_run by blast
  have "app_inv (\<lambda>q. q) (\<lambda>q. q) (\<lambda>q. q) (app_view f)"
    by (rule firmware_invariant [OF r(1) idle_facts(3,1,2) refl refl _ list_msgq_laws list_msgq_laws list_msgq_laws _
          get_json_in_place r(2)]) simp_all
  with r show ?thesis by blast
qed

theorem firmware_never_faults_witness:
  "\<exists>t f. tib_init = Some (Inr (t, tib_main)) \<and> tib_reachable (fw_start t tib_main []) f \<and>
     length (in_hand (app_view f)) = 1 \<and>
     main_tick request_then_drop (list_msgq 8) True (\<lambda>h. 100 * int (length h)) (fw_pc f, fw_main f) \<noteq> None"
proof -
  obtain t f where r: "tib_init = Some (Inr (t, tib_main))" "tib_reachable (fw_start t tib_main []) f"
    "length (in_hand (app_view f)) = 1" using tib_run by blast
  have "read_law request_then_drop"
    by (simp add: read_law_def request_then_drop_def CONFIG_COO_MQTT_PAYLOAD_SIZE_def)
  from firmware_never_faults [OF r(1) idle_facts(3,1,2) refl refl _ list_msgq_laws list_msgq_laws list_msgq_laws _
          get_json_in_place r(2) this] r show ?thesis by (intro exI [of _ t] exI [of _ f]) simp
qed


section \<open>The watchdog on a quiet connection\<close>

text \<open>What a poll promises: when it answers 0, its timeout has passed.\<close>

definition poll_clock_law :: "mqtt_lib \<Rightarrow> (sys_call list \<Rightarrow> int) \<Rightarrow> bool" where
  "poll_clock_law L uptime \<longleftrightarrow>
     (\<forall>h fd t. fst (lib_poll L (h @ [Zsock_poll fd t])) = 0 \<longrightarrow> t \<le> uptime (h @ [Zsock_poll fd t]) - uptime h)"

text \<open>
  C39: A healthy but quiet connection starves the watchdog too. After feeding it, the main thread drains the queue and waits
  in one poll for the whole time left until the next keep-alive message; when nothing arrives and that time is 5 seconds or more
  (the configuration sets 60), the timeout of the watchdog passes without it being fed.
\<close>

theorem idle_link_starves_watchdog:
  assumes "mqtt_connected (mq s)" and "q_get Q (snd (user_state (mq s))) = None" and "poll_clock_law L uptime"
    and "\<forall>h. fst (lib_poll L h) = 0" and "\<forall>h. int WDT_TIMEOUT_MS \<le> lib_keepalive L h"
  shows "\<exists>s' fd t. main_ticks 3 L Q wdt uptime (Serving, s) = Some (Pinging, s') \<and>
    calls (mq s') = calls (mq (feed_watchdog wdt uptime s)) @ [Zsock_poll fd t] \<and>
    last_wdt_feed s' = last_wdt_feed (feed_watchdog wdt uptime s) \<and>
    int WDT_TIMEOUT_MS \<le> uptime (calls (mq s')) - uptime (calls (mq (feed_watchdog wdt uptime s)))"
proof -
  let ?f = "feed_watchdog wdt uptime s"
  let ?t = "lib_keepalive L (calls (mq ?f))"
  let ?p = "poll_mqtt_socket L ?t (mq ?f)"
  have q: "q_get Q (snd (user_state (mq ?f))) = None"
    using assms(2) by (simp add: feed_watchdog_def log_call_def Let_def)
  have p: "fst ?p = 0" "calls (snd ?p) = calls (mq ?f) @ [Zsock_poll (pfd_fd (snd ?p)) ?t]"
    using assms(4) by (simp_all add: poll_mqtt_socket_def prepare_fds_def log_call_def Let_def case_prod_unfold)
  have run: "main_ticks 3 L Q wdt uptime (Serving, s) = Some (Pinging, ?f\<lparr>mq := snd ?p\<rparr>)"
    using assms(1) q p(1)
    by (simp add: eval_nat_numeral main_tick_def coo_mqtt_is_connected_def Let_def case_prod_unfold)
  have "?t \<le> uptime (calls (snd ?p)) - uptime (calls (mq ?f))"
    using assms(3,4) unfolding p(2) by (simp add: poll_clock_law_def)
  moreover have "int WDT_TIMEOUT_MS \<le> ?t" using assms(5) by blast
  ultimately show ?thesis
    by (intro exI [of _ "?f\<lparr>mq := snd ?p\<rparr>"] exI [of _ "pfd_fd (snd ?p)"] exI [of _ ?t] conjI run) (simp_all add: p(2))
qed

text \<open>A broker that never says anything, and a clock that counts the time spent in polls.\<close>

definition quiet_broker :: mqtt_lib where
  "quiet_broker = slow_broker\<lparr>lib_poll := \<lambda>h. (0, None), lib_keepalive := \<lambda>h. 60000\<rparr>"

definition poll_clock :: "sys_call list \<Rightarrow> int" where
  "poll_clock h = sum_list (map (\<lambda>c. case c of Zsock_poll fd t \<Rightarrow> t | _ \<Rightarrow> 0) h)"

definition quiet_main :: "(Command list, OutMsg list) main_state" where
  "quiet_main = tib_main\<lparr>mq := (mq tib_main)\<lparr>mqtt_connected := True\<rparr>, last_wdt_feed := 0\<rparr>"

theorem idle_link_starves_watchdog_witness:
  "\<exists>s' fd t. main_ticks 3 quiet_broker (list_msgq 8) True poll_clock (Serving, quiet_main) = Some (Pinging, s') \<and>
     calls (mq s') = [Zsock_poll fd t] \<and> int WDT_TIMEOUT_MS \<le> poll_clock (calls (mq s'))"
proof -
  have fed: "calls (mq (feed_watchdog True poll_clock quiet_main)) = []" "poll_clock [] = 0"
    by (simp_all add: feed_watchdog_def quiet_main_def tib_main_facts poll_clock_def WDT_FEED_INTERVAL_MS_def)
  have "mqtt_connected (mq quiet_main)" "q_get (list_msgq 8) (snd (user_state (mq quiet_main))) = None"
    "poll_clock_law quiet_broker poll_clock" "\<forall>h. fst (lib_poll quiet_broker h) = 0"
    "\<forall>h. int WDT_TIMEOUT_MS \<le> lib_keepalive quiet_broker h"
    by (simp_all add: quiet_main_def tib_main_facts list_msgq_def poll_clock_law_def poll_clock_def quiet_broker_def WDT_TIMEOUT_MS_def)
  from idle_link_starves_watchdog [OF this, of True] show ?thesis by (simp add: fed) blast
qed

end
