(* ===== verification/Command_Effects.thy ===== *)
theory Command_Effects
  imports Command_Spec
begin

text \<open>
  What the handlers of \<open>app/src/command.c\<close> do to the board and to the data in every state of the box, initialised or not:
  which pins are high at every moment of the history, how long they sleep, and that every array keeps the size of its declaration.
\<close>

section \<open>The pins that are driven\<close>

text \<open>The pins high after a history, and the milliseconds spent sleeping in it.\<close>

fun drive :: "(device \<times> u8) list \<Rightarrow> io_event \<Rightarrow> (device \<times> u8) list" where
  "drive ps (Gpio_pin_set d p v) = (if v \<noteq> 0 then List.insert (d, p) ps else removeAll (d, p) ps)"
| "drive ps (Gpio_pin_configure d p) = removeAll (d, p) ps"
| "drive ps _ = ps"

definition driven :: "io \<Rightarrow> (device \<times> u8) list" where
  "driven h = foldl drive [] h"

fun sleep_ms :: "io \<Rightarrow> nat" where
  "sleep_ms [] = 0"
| "sleep_ms (K_sleep n # es) = n + sleep_ms es"
| "sleep_ms (e # es) = sleep_ms es"

lemma sleep_ms_append [simp]: "sleep_ms (es @ fs) = sleep_ms es + sleep_ms fs"
  by (induction es rule: sleep_ms.induct) simp_all

text \<open>Never more than one pin high, and none in the end.\<close>

definition calm :: "io \<Rightarrow> bool" where
  "calm es \<longleftrightarrow> driven es = [] \<and> (\<forall>n. length (driven (take n es)) \<le> 1)"

lemma driven_append: "driven es = [] \<Longrightarrow> driven (es @ fs) = driven fs"
  by (simp add: driven_def)

lemma calm_Nil [simp]: "calm []"
  by (simp add: calm_def driven_def)

lemma calm_append:
  assumes "calm es" and "calm fs"
  shows "calm (es @ fs)"
proof -
  have "length (driven (take n (es @ fs))) \<le> 1" for n
  proof (cases "n \<le> length es")
    case True
    then show ?thesis using assms(1) by (simp add: calm_def)
  next
    case False
    then have "driven (take n (es @ fs)) = driven (take (n - length es) fs)"
      using assms(1) by (simp add: calm_def driven_append)
    then show ?thesis using assms(2) by (simp add: calm_def)
  qed
  then show ?thesis using assms by (simp add: calm_def driven_append)
qed

lemma calm_single: "drive [] e = [] \<Longrightarrow> calm [e]"
  by (simp add: calm_def driven_def take_Cons split: nat.split)

lemma calm_concat: "list_all (\<lambda>e. drive [] e = []) es \<Longrightarrow> calm es"
proof (induction es)
  case (Cons e es)
  then show ?case using calm_append [OF calm_single, of e es] by simp
qed simp

lemma calm_pulse: "calm (pulse d p)"
  by (auto simp: calm_def driven_def pulse_def take_Cons split: nat.split)

section \<open>What an operation adds to the history\<close>

text \<open>The history grows by a calm sequence that sleeps for at most \<open>t\<close> milliseconds.\<close>

definition calmly :: "nat \<Rightarrow> io \<Rightarrow> io \<Rightarrow> bool" where
  "calmly t h h' \<longleftrightarrow> (\<exists>es. h' = h @ es \<and> calm es \<and> sleep_ms es \<le> t)"

named_theorems calmly_intros \<open>operations that add to the history calmly\<close>

lemma calmly_refl [calmly_intros]: "calmly t h h"
  by (simp add: calmly_def)

lemma calmly_trans: "calmly t h h' \<Longrightarrow> calmly u h' h'' \<Longrightarrow> calmly (t + u) h h''"
  unfolding calmly_def by (elim exE conjE) (auto intro!: calm_append)

lemma calmly_mono: "calmly t h h' \<Longrightarrow> t \<le> u \<Longrightarrow> calmly u h h'"
  unfolding calmly_def by auto

lemma calmly_plain:
  "list_all (\<lambda>e. drive [] e = []) es \<Longrightarrow> sleep_ms es \<le> t \<Longrightarrow> calmly t h (h @ es)"
  unfolding calmly_def by (blast intro: calm_concat)

lemma calmly_pulse: "calmly 6 h (h @ pulse d p)"
  unfolding calmly_def
  by (intro exI [of _ "pulse d p"] conjI calm_pulse refl) (simp add: pulse_def MEMS_SWITCH_PULSE_DELAY_MS_def)

lemma calmly_power [calmly_intros]:
  "calmly t h (snd (power_enabled P h))" "calmly t h (snd (enable_power P h))" "calmly t h (snd (disable_power P h))"
  using calmly_plain [of "[Power_get]" t h] calmly_plain [of "[Power_get, Power_set 1]" t h]
    calmly_plain [of "[Power_get, Power_set 0]" t h]
  by (simp_all add: enable_power_def disable_power_def case_prod_unfold power_enabled_history Let_def calmly_refl)

lemma calmly_boot: "calmly 1000 h (wait_laser_boot h)"
  using calmly_plain [of "[K_sleep 1000]" 1000 h] by (simp add: wait_laser_boot_def)

lemma calmly_modbus [calmly_intros]:
  "calmly t h (snd (snd (maiman_read_u16 P drv a h)))" "calmly t h (snd (maiman_write_u16 P drv a v h))"
  using calmly_plain [of "[Modbus_read (node_id drv) a]" t h] calmly_plain [of "[Modbus_write (node_id drv) a v]" t h]
  by (simp_all add: maiman_read_u16_def maiman_write_u16_def case_prod_unfold Let_def)

lemma calmly_attenuator:
  "attenuator_set P drv x raw h = Some (ok, drv', h') \<Longrightarrow> calmly t h h'"
  using calmly_plain [of "[Dac_channel_setup (channel_id (cfg drv))]" t h]
    calmly_plain [of "[Dac_channel_setup (channel_id (cfg drv)), Dac_write_value (channel_id (cfg drv)) (the (dac_code (clamp_voltage (requested_voltage drv x raw))))]" t h]
  by (auto simp: attenuator_set_def Let_def calmly_refl split: if_splits option.splits)

lemma calmly_set_switch: "calmly 6 (history s) (history (snd (set_switch p c s)))"
  using calmly_pulse by (simp add: set_switch_def mems_switch_set_state_def calmly_refl)

lemma calmly_run_steps: "calmly (6 * length stps) (history s) (history (snd (run_steps stps s)))"
proof (induction stps arbitrary: s)
  case (Cons stp stps)
  show ?case
  proof (cases "mems_router_find_switch (mems_switches s) (router s) (switch_name stp)")
    case (Some p)
    have "calmly (6 + 6 * length stps) (history s) (history (snd (run_steps stps (snd (set_switch p (step_state stp) s)))))"
      by (rule calmly_trans [OF calmly_set_switch Cons])
    moreover have "calmly (6 + 6 * length stps) (history s) (history (snd (set_switch p (step_state stp) s)))"
      by (rule calmly_mono [OF calmly_set_switch]) simp
    ultimately show ?thesis using Some by (simp add: case_prod_unfold Let_def)
  qed (simp add: calmly_refl)
qed (simp add: calmly_refl)

section \<open>The sizes of the data\<close>

text \<open>Every array of the box and of a message has the size its declaration gives it, every counter fits its array.\<close>

definition switch_typed :: "mems_switch \<Rightarrow> bool" where
  "switch_typed sw \<longleftrightarrow> length (sw_name sw) = MEMS_SWITCH_NAME_LEN"

definition attenuator_typed :: "attenuator \<Rightarrow> bool" where
  "attenuator_typed a \<longleftrightarrow> length (coeff_db_to_volt a) = 3 \<and> length (coeff_volt_to_db a) = 3"

definition tib_typed :: "tib \<Rightarrow> bool" where
  "tib_typed s \<longleftrightarrow>
     length (mems_switches s) = MEMS_ROUTER_MAX_SWITCHES \<and> list_all switch_typed (mems_switches s) \<and>
     router_wf (mems_switches s) (router s) \<and>
     length (attenuators s) = NUM_ATTENUATORS \<and> list_all attenuator_typed (attenuators s)"

definition out_typed :: "OutMsg \<Rightarrow> bool" where
  "out_typed m \<longleftrightarrow> length (out_topic m) = MAX_TOPIC_LEN \<and> length (out_payload m) = MAX_PAYLOAD_LEN \<and>
     length (out_correlation_data m) = MAX_CORRELATION_DATA \<and> out_corr_len m < MAX_CORRELATION_DATA"

lemma msg_builder_typed: "out_typed (msg_builder (Some c) t msg)"
  by (auto simp: out_typed_def msg_builder_def zero_OutMsg_def Let_def tib_defs max_def)

lemma typed_history [simp]: "tib_typed (s\<lparr>history := h\<rparr>) = tib_typed s"
  by (simp add: tib_typed_def)

lemma set_state_typed: "switch_typed sw \<Longrightarrow> switch_typed (fst (snd (mems_switch_set_state sw c h)))"
  by (simp add: switch_typed_def mems_switch_set_state_def)

lemma list_all_update: "list_all g xs \<Longrightarrow> (i < length xs \<Longrightarrow> g x) \<Longrightarrow> list_all g (xs[i := x])"
  by (cases "i < length xs") (auto simp: list_all_length nth_list_update)

lemma set_switch_typed:
  assumes "tib_typed s"
  shows "tib_typed (snd (set_switch p c s))"
proof -
  have "list_all switch_typed ((mems_switches s)[p := fst (snd (mems_switch_set_state (mems_switches s ! p) c (history s)))])"
    using assms by (intro list_all_update set_state_typed) (simp_all add: tib_typed_def list_all_length)
  with assms show ?thesis
    by (auto simp: set_switch_def case_prod_unfold Let_def tib_typed_def router_wf_def)
qed

lemma run_steps_typed: "tib_typed s \<Longrightarrow> tib_typed (snd (run_steps stps s))"
  by (induction stps arbitrary: s) (auto simp: case_prod_unfold Let_def set_switch_typed split: option.split)

lemma store_coeffs_typed: "tib_typed s \<Longrightarrow> tib_typed (store_coeffs i f g s)"
  by (simp add: tib_typed_def store_coeffs_def list_all_update attenuator_typed_def)

lemma set_attenuator_typed:
  assumes "tib_typed s" and "set_attenuator R i x raw s = Some s'"
  shows "tib_typed s'"
proof -
  obtain ok a h where a: "attenuator_set (board R) (attenuators s ! i) x raw (history s) = Some (ok, a, h)"
    "s' = s\<lparr>attenuators := (attenuators s)[i := a], history := h\<rparr>"
    using assms(2) by (auto simp: set_attenuator_def split: option.splits)
  have "attenuator_typed a" if "i < length (attenuators s)"
  proof -
    have "attenuator_typed (attenuators s ! i)" using assms(1) that by (simp add: tib_typed_def list_all_length)
    moreover have "coeff_db_to_volt a = coeff_db_to_volt (attenuators s ! i)" "coeff_volt_to_db a = coeff_volt_to_db (attenuators s ! i)"
      using a(1) by (auto simp: attenuator_set_def Let_def split: if_splits option.splits)
    ultimately show ?thesis by (simp add: attenuator_typed_def)
  qed
  then show ?thesis using assms(1) by (simp add: a(2) tib_typed_def list_all_update)
qed

section \<open>The handlers\<close>

text \<open>What every handler keeps whatever the state of the box: the sizes, one coil at a time, and its time.\<close>

locale timed_handler =
  fixes func :: handler and t :: nat
  assumes timely: "tib_typed s \<Longrightarrow> func R c s = Some (m, s') \<Longrightarrow>
    out_typed m \<and> tib_typed s' \<and> calmly t (history s) (history s')"
begin

lemma released:
  assumes "tib_typed s" and "func R c s = Some (m, s')" and "driven (history s) = []"
  shows "driven (history s') = []"
  using timely [OF assms(1,2)] assms(3) by (auto simp: calmly_def calm_def driven_append)

lemma one_coil:
  assumes "tib_typed s" and "func R c s = Some (m, s')" and "driven (history s) = []" and "length (history s) \<le> n"
  shows "length (driven (take n (history s'))) \<le> 1"
proof -
  obtain es where es: "history s' = history s @ es" "calm es"
    using timely [OF assms(1,2)] by (auto simp: calmly_def)
  then have "driven (take n (history s')) = driven (take (n - length (history s)) es)"
    using assms(3,4) by (simp add: driven_append)
  with es(2) show ?thesis by (simp add: calm_def)
qed

lemma sleeps:
  assumes "tib_typed s" and "func R c s = Some (m, s')"
  shows "sleep_ms (drop (length (history s)) (history s')) \<le> t"
  using timely [OF assms] by (auto simp: calmly_def)

end

definition behaves :: "nat \<Rightarrow> tib \<Rightarrow> (OutMsg \<times> tib) option \<Rightarrow> bool" where
  "behaves t s r \<longleftrightarrow>
     (\<forall>m s'. r = Some (m, s') \<longrightarrow> out_typed m \<and> tib_typed s' \<and> calmly t (history s) (history s'))"

named_theorems behaves_intros \<open>results that behave\<close>

lemma behaves_reply [behaves_intros]:
  "tib_typed s' \<Longrightarrow> calmly t (history s) (history s') \<Longrightarrow> behaves t s (reply c ty msg s')"
  by (simp add: behaves_def reply_def msg_builder_typed)

lemma behaves_None [behaves_intros]: "behaves t s None"
  by (simp add: behaves_def)

lemma behaves_if [behaves_intros]: "(b \<Longrightarrow> behaves t s x) \<Longrightarrow> (\<not> b \<Longrightarrow> behaves t s y) \<Longrightarrow> behaves t s (if b then x else y)"
  by simp

lemma behaves_option [behaves_intros]:
  "(v = None \<Longrightarrow> behaves t s x) \<Longrightarrow> (\<And>w. v = Some w \<Longrightarrow> behaves t s (f w)) \<Longrightarrow>
     behaves t s (case v of None \<Rightarrow> x | Some w \<Rightarrow> f w)"
  by (cases v) simp_all

lemma timed_handlerI:
  "(\<And>R c s. tib_typed s \<Longrightarrow> behaves t s (func R c s)) \<Longrightarrow> timed_handler func t"
  by unfold_locales (auto simp: behaves_def)

interpretation timed_memsroute_get: timed_handler memsroute_get 0
  by (rule timed_handlerI) (simp add: memsroute_get_text behaves_intros calmly_refl)

lemma get_route_short: "router_wf b r \<Longrightarrow> mems_router_get_route r i ou = Some rt \<Longrightarrow> length (route_steps rt) \<le> 5"
  by (auto simp: router_wf_def mems_router_get_route_def get_route_from_find MEMS_ROUTER_MAX_ROUTE_PATH_def find_Some_iff)

interpretation timed_memsroute_set: timed_handler memsroute_set 30
proof (rule timed_handlerI)
  fix R c s
  assume s: "tib_typed s"
  have "tib_typed (snd (run_steps (route_steps rt) s)) \<and> calmly 30 (history s) (history (snd (run_steps (route_steps rt) s)))"
    if "mems_router_get_route (router s) i ou = Some rt" for rt i ou
    using get_route_short [OF _ that] s run_steps_typed [OF s]
    by (intro conjI calmly_mono [OF calmly_run_steps]) (auto simp: tib_typed_def)
  then show "behaves 30 s (memsroute_set R c s)"
    unfolding memsroute_set_def case_prod_unfold Let_def
    by (intro behaves_intros) (auto simp: s calmly_refl case_prod_unfold split: option.split intro!: behaves_intros)
qed

interpretation timed_mems_get: timed_handler mems_get 0
  by (rule timed_handlerI)
     (auto simp: mems_get_def case_prod_unfold Let_def mems_switch_get_state_def calmly_refl split: option.split intro!: behaves_intros)

lemma set_switch_behaves:
  "tib_typed s \<Longrightarrow> tib_typed (snd (set_switch p c s)) \<and> calmly 6 (history s) (history (snd (set_switch p c s)))"
  by (simp add: set_switch_typed calmly_set_switch)

interpretation timed_mems_set: timed_handler mems_set 6
  by (rule timed_handlerI)
     (auto simp: mems_set_def case_prod_unfold Let_def calmly_refl set_switch_behaves split: option.split intro!: behaves_intros)

lemma calmly_powered:
  "calmly 1000 h (wait_laser_boot (snd (enable_power P h)))" "calmly 1000 h (snd (enable_power P h))"
  using calmly_trans [OF calmly_power(2) [of 0] calmly_boot, of h P] calmly_power(2) by auto

lemma calmly_laser:
  "calmly 1000 h (snd (snd (maiman_read_u16 P drv a (wait_laser_boot (snd (enable_power P h))))))"
  "calmly 1000 h (snd (snd (maiman_read_u16 P drv a (snd (enable_power P h)))))"
  "calmly 1000 h (snd (maiman_write_u16 P drv a v (wait_laser_boot (snd (enable_power P h)))))"
  "calmly 1000 h (snd (maiman_write_u16 P drv a v (snd (enable_power P h))))"
  using calmly_trans [OF calmly_powered(1) calmly_modbus(1) [of 0]] calmly_trans [OF calmly_powered(2) calmly_modbus(1) [of 0]]
    calmly_trans [OF calmly_powered(1) calmly_modbus(2) [of 0]] calmly_trans [OF calmly_powered(2) calmly_modbus(2) [of 0]]
  by auto

interpretation timed_laser_setting_get: timed_handler laser_setting_get 1000
  by (rule timed_handlerI)
     (auto simp: laser_setting_get_def case_prod_unfold Let_def calmly_refl calmly_laser
        split: option.split bool.split intro!: behaves_intros)

interpretation timed_laser_setting_set: timed_handler laser_setting_set 1000
  by (rule timed_handlerI)
     (auto simp: laser_setting_set_def case_prod_unfold Let_def calmly_refl calmly_laser
        split: option.split bool.split intro!: behaves_intros)

lemma behaves_set_attenuator:
  assumes "tib_typed s'" and "history s' = history s"
  shows "behaves t s (case set_attenuator R i x raw s' of None \<Rightarrow> None | Some u \<Rightarrow> reply c ty msg u)"
proof (cases "set_attenuator R i x raw s'")
  case (Some u)
  then obtain ok a h where "attenuator_set (board R) (attenuators s' ! i) x raw (history s') = Some (ok, a, h)" "history u = h"
    by (auto simp: set_attenuator_def split: option.splits)
  then have "calmly t (history s) (history u)" using assms(2) calmly_attenuator by metis
  with Some set_attenuator_typed [OF assms(1) Some] show ?thesis by (simp add: behaves_intros)
qed (simp add: behaves_intros)

interpretation timed_atten_setting_get: timed_handler atten_setting_get 0
  by (rule timed_handlerI)
     (auto simp: atten_setting_get_def case_prod_unfold Let_def calmly_refl intro!: behaves_intros)

lemma behaves_set_from_payload: "tib_typed s \<Longrightarrow> behaves t s (set_from_payload R c i raw s)"
  unfolding set_from_payload_def case_prod_unfold Let_def
  by (intro behaves_if behaves_reply behaves_set_attenuator) (simp_all add: calmly_refl)

interpretation timed_atten_setting_set: timed_handler atten_setting_set 0
proof (rule timed_handlerI)
  fix R c s
  assume s: "tib_typed s"
  have "history (store_coeffs i f g s) = history s" for i f g by (simp add: store_coeffs_def)
  with s show "behaves 0 s (atten_setting_set R c s)"
    unfolding atten_setting_set_def case_prod_unfold Let_def
    by (intro behaves_if behaves_reply behaves_set_from_payload behaves_set_attenuator)
       (simp_all add: calmly_refl store_coeffs_typed)
qed

interpretation timed_status_get: timed_handler status_get 0
  by (rule timed_handlerI) (simp add: status_get_def case_prod_unfold Let_def behaves_intros calmly_power)

interpretation timed_power_get: timed_handler power_get 0
  by (rule timed_handlerI) (simp add: power_get_def case_prod_unfold Let_def behaves_intros calmly_power)

interpretation timed_power_set: timed_handler power_set 0
  by (rule timed_handlerI)
     (auto simp: power_set_def case_prod_unfold Let_def calmly_power calmly_refl intro!: behaves_intros)

interpretation timed_sleep_set: timed_handler sleep_set 0
  by (rule timed_handlerI)
     (auto simp: sleep_set_def case_prod_unfold Let_def calmly_power calmly_refl intro!: behaves_intros)

lemma unanswered_behaves: "tib_typed s \<Longrightarrow> behaves t s (Some (unknown_response c, s)) \<and> behaves t s (Some (unsupported_response c, s))"
  by (simp add: behaves_def unknown_response_def unsupported_response_def msg_builder_typed calmly_refl)

text \<open>The dispatcher reaches the laser handlers with no key they accept, so a laser is never waited for.\<close>

interpretation timed_dispatch: timed_handler dispatch_command 30
proof (rule timed_handlerI)
  fix R c s
  assume s: "tib_typed s"
  have h: "behaves 30 s (f R c s)" if "timed_handler f t" "t \<le> 30" for f t
    using timed_handler.timely [OF that(1) s] calmly_mono [OF _ that(2)] by (auto simp: behaves_def)
  have b: "slash \<notin> set (cstr (cmd_key c))" if "cstr (cmd_key c) \<in> {''mems'', ''laser'', ''atten''}"
    using that by auto
  have r: "behaves 30 s (reply c ty msg s)" for ty msg by (intro behaves_reply s calmly_refl)
  note t = h [OF timed_memsroute_get.timed_handler_axioms] h [OF timed_memsroute_set.timed_handler_axioms]
    h [OF timed_status_get.timed_handler_axioms] h [OF timed_power_get.timed_handler_axioms]
    h [OF timed_power_set.timed_handler_axioms] h [OF timed_sleep_set.timed_handler_axioms]
  show "behaves 30 s (dispatch_command R c s)"
    unfolding dispatch_cases
    by (intro behaves_if) (simp_all add: b bare_keys_refused r t unanswered_behaves s)
qed

lemma timed_mono: "timed_handler f t \<Longrightarrow> t \<le> u \<Longrightarrow> timed_handler f u"
  unfolding timed_handler_def by (meson calmly_mono)

lemmas weaken = timed_mono [where u = 30]

lemma table_timed:
  assumes "e \<in> set dispatch_table" and "get_handler e = Some f \<or> set_handler e = Some f"
  shows "timed_handler f (if entry_key e = ''laser'' then 1000 else 30)"
proof -
  have "timed_handler memsroute_get 30" "timed_handler memsroute_set 30" "timed_handler mems_get 30" "timed_handler mems_set 30"
    "timed_handler laser_setting_get 1000" "timed_handler laser_setting_set 1000"
    "timed_handler atten_setting_get 30" "timed_handler atten_setting_set 30" "timed_handler status_get 30"
    "timed_handler power_get 30" "timed_handler power_set 30" "timed_handler sleep_set 30"
    using weaken [OF timed_memsroute_get.timed_handler_axioms] weaken [OF timed_memsroute_set.timed_handler_axioms]
      weaken [OF timed_mems_get.timed_handler_axioms] weaken [OF timed_mems_set.timed_handler_axioms]
      weaken [OF timed_atten_setting_get.timed_handler_axioms] weaken [OF timed_atten_setting_set.timed_handler_axioms]
      weaken [OF timed_status_get.timed_handler_axioms] weaken [OF timed_power_get.timed_handler_axioms]
      weaken [OF timed_power_set.timed_handler_axioms] weaken [OF timed_sleep_set.timed_handler_axioms]
      timed_laser_setting_get.timed_handler_axioms timed_laser_setting_set.timed_handler_axioms by simp_all
  with assms show ?thesis unfolding dispatch_table_def by auto
qed

section \<open>Properties\<close>

text \<open>
  No handler of the dispatch table, whatever the command, the JSON library and the drivers do, ever drives two coils at the
  same time, at no moment of its run, or leaves one driven; a command for a laser sleeps for at most one second and any other for
  at most 30 ms; and the sizes of all arrays, in the box and in the reply, stay those of their declarations.
\<close>

theorem handlers_drive_one_coil:
  assumes "e \<in> set dispatch_table" and "get_handler e = Some f \<or> set_handler e = Some f"
    and "tib_typed s" and "driven (history s) = []" and "f R c s = Some (m, s')"
  shows "driven (history s') = [] \<and> (\<forall>n. length (history s) \<le> n \<longrightarrow> length (driven (take n (history s'))) \<le> 1) \<and>
    sleep_ms (drop (length (history s)) (history s')) \<le> (if entry_key e = ''laser'' then 1000 else 30) \<and>
    tib_typed s' \<and> out_typed m"
proof -
  note t = table_timed [OF assms(1,2)]
  show ?thesis
    using timed_handler.released [OF t assms(3,5,4)] timed_handler.one_coil [OF t assms(3,5,4)]
      timed_handler.sleeps [OF t assms(3,5)] timed_handler.timely [OF t assms(3,5)] by blast
qed

lemma booted_typed: "tib_typed (booted h)"
proof -
  have "list_all switch_typed booted_switches" "router_wf booted_switches booted_router" "length booted_switches = 8"
    "list_all attenuator_typed (attenuators (booted []))" "length (attenuators (booted [])) = NUM_ATTENUATORS"
    by code_simp+
  moreover have "attenuators (booted h) = attenuators (booted [])" by (simp add: booted_attenuators)
  ultimately show ?thesis
    by (simp add: tib_typed_def booted_def setup_attenuators_def MEMS_ROUTER_MAX_SWITCHES_def)
qed

text \<open>A route command on the booted box, for which two switches are pulsed.\<close>

theorem handlers_drive_one_coil_witness:
  "\<exists>m s'. memsroute_set (sample_runtime (route_json_lib ''yj_cal'' ''yj_ao'')) (sample_command ''memsroute'' SET) (booted []) = Some (m, s') \<and>
     length (history s') = 28 \<and> driven (history s') = [] \<and> length (driven (take 19 (history s'))) \<le> 1"
proof -
  let ?r = "memsroute_set (sample_runtime (route_json_lib ''yj_cal'' ''yj_ao'')) (sample_command ''memsroute'' SET) (booted [])"
  have c: "\<not> Option.is_none ?r" "length (history (snd (the ?r))) = 28" "length (history (booted [])) = 16"
    "driven (history (booted [])) = []"
    by code_simp+
  then obtain m s' where r: "?r = Some (m, s')" by (cases ?r) auto
  let ?e = "\<lparr>entry_key = ''memsroute'', get_handler = Some memsroute_get, set_handler = Some memsroute_set\<rparr>"
  have "?e \<in> set dispatch_table" by (simp add: dispatch_table_def)
  from handlers_drive_one_coil [OF this, of memsroute_set, OF _ booted_typed c(4) r] r c(2,3) show ?thesis by auto
qed

end
