(* ===== verification/Firmware_Safety.thy ===== *)
theory Firmware_Safety
  imports Firmware Command_Effects
begin

text \<open>
  What holds of the firmware from power-up whether or not the port expander came up: the sizes of all data, one coil at a time,
  the lengths of the queues. The locale \<open>message_rule\<close> says what the callback, the photodiode thread and the dispatcher owe a
  property of all commands and messages, and proves once that the threads keep it; it is interpreted here on the sizes, and in
  \<open>Firmware_Replies\<close> on the texts.
\<close>

section \<open>The queues of the sources\<close>

text \<open>The depths \<open>K_MSGQ_DEFINE\<close> gives the three queues.\<close>

definition inbound_depth :: nat where [tib_defs]: "inbound_depth = MAX_PENDING_COMMANDS"
definition outbound_depth :: nat where [tib_defs]: "outbound_depth = 8"
definition photodiode_depth :: nat where [tib_defs]: "photodiode_depth = 4"

section \<open>How long the queues get\<close>

lemma put_within:
  "msgq_laws Q contents depth \<Longrightarrow> length (contents q) \<le> depth \<Longrightarrow> length (contents (snd (q_put Q q m))) \<le> depth"
  by (simp add: msgq_put_iff(2))

lemma samples_after:
  assumes "msgq_laws P cp pdepth" and "0 < pdepth" and "photodiode_round P a pq = Some (pq', nap)"
  shows "\<exists>yj hk sec. cp pq' = (if length (cp pq) < pdepth then cp pq @ [photodiode_message yj hk sec] else [photodiode_message yj hk sec])"
proof -
  let ?m = "photodiode_message (sample_channel (yj_setup_rc a) (yj_read a)) (sample_channel (hk_setup_rc a) (hk_read a)) (ts_sec a)"
  have "enqueue_purging P pq ?m = Some pq'"
    using assms(3) by (auto simp: photodiode_round_def Let_def split: option.splits if_splits)
  with enqueue_purging_ends [OF assms(1,2), of pq ?m] show ?thesis by auto
qed

definition within_depths ::
  "('i \<Rightarrow> Command list) \<Rightarrow> ('o \<Rightarrow> OutMsg list) \<Rightarrow> ('p \<Rightarrow> OutMsg list) \<Rightarrow> nat \<Rightarrow> nat \<Rightarrow> nat \<Rightarrow> ('i, 'o, 'p) app \<Rightarrow> bool" where
  "within_depths ci co cp idepth odepth pdepth s \<longleftrightarrow>
     length (ci (inbound s)) \<le> idepth \<and> length (co (outbound s)) \<le> odepth \<and> length (cp (samples s)) \<le> pdepth"

lemma executor_within:
  assumes laws: "msgq_laws I ci idepth" "msgq_laws Q co odepth" and s: "within_depths ci co cp idepth odepth pdepth s"
    and run: "executor_step R I Q s = Some s'"
  shows "within_depths ci co cp idepth odepth pdepth s'"
proof (cases "executing s")
  case None
  then show ?thesis
    using run s msgq_get_Some [OF laws(1)]
    by (fastforce simp: executor_step_def within_depths_def split: option.splits)
next
  case (Some om)
  then show ?thesis
    using run s put_within [OF laws(2), of "outbound s" om]
    by (auto simp: executor_step_def case_prod_unfold Let_def within_depths_def split: if_splits)
qed

lemma step_within:
  assumes laws: "msgq_laws I ci idepth" "msgq_laws Q co odepth" "msgq_laws P cp pdepth" and J: "json_in_place J"
    and pd: "0 < pdepth" and s: "within_depths ci co cp idepth odepth pdepth s" and st: "app_step J I Q P s s'"
  shows "within_depths ci co cp idepth odepth pdepth s'"
  using st
proof cases
  case (receive pub inq outq)
  have "length (ci inq) \<le> idepth \<and> length (co outq) \<le> odepth"
    using callback_cases [OF J, of I Q pub "inbound s" "outbound s"] s put_within [OF laws(1), of "inbound s"]
      put_within [OF laws(2), of "outbound s"]
    unfolding receive(2) by (auto simp: within_depths_def split: if_splits)
  then show ?thesis using s receive(1) by (simp add: within_depths_def)
next
  case (execute R)
  then show ?thesis using executor_within [OF laws(1,2) s] by blast
next
  case (sample a pq slept)
  with samples_after [OF laws(3) pd sample(2)] show ?thesis
    using s pd by (auto simp: within_depths_def)
next
  case (forward pq outq)
  with forward_samples_ends [OF laws(3,2), of "samples s" "outbound s"] s show ?thesis
    by (auto simp: within_depths_def)
next
  case (publish om outq)
  with msgq_get_Some [OF laws(2) publish(2)] s show ?thesis by (simp add: within_depths_def)
qed

lemma reachable_within:
  assumes "app_reachable J I Q P s0 s" and "within_depths ci co cp idepth odepth pdepth s0"
    and "msgq_laws I ci idepth" "msgq_laws Q co odepth" "msgq_laws P cp pdepth" "json_in_place J" "0 < pdepth"
  shows "within_depths ci co cp idepth odepth pdepth s"
  using assms by (induction rule: app_reachable.induct) (blast intro: step_within)+

lemma fw_app_reachable:
  assumes "main_init B iface reads resolve J I Q m0 = Some (Inr (t, s))"
    and "fw_reachable L J I Q P wdt uptime (fw_start t s pq) f"
  shows "app_reachable J I Q P (app_view (fw_start t s pq)) (app_view f)"
  using fw_reachable_refines [OF assms(2)] main_init_facts(5) [OF assms(1)] by (simp add: fw_start_def)

section \<open>What is true of every command and every message\<close>

text \<open>The one refusal the callback makes itself: to nobody in particular.\<close>

definition refusal :: "OutMsg \<Rightarrow> bool" where
  "refusal m \<longleftrightarrow> (\<exists>c. m = invalid_command_response c) \<and> cstr (out_topic m) = default_topic \<and> out_corr_len m = 0 \<and> out_msg_wf m"

text \<open>
  A property of the state of the box, one of commands and one of messages hold everywhere: of what waits, of the reply in hand and
  of what was published.
\<close>

definition kept ::
  "(tib \<Rightarrow> bool) \<Rightarrow> (Command \<Rightarrow> bool) \<Rightarrow> (OutMsg \<Rightarrow> bool) \<Rightarrow> ('i \<Rightarrow> Command list) \<Rightarrow> ('o \<Rightarrow> OutMsg list) \<Rightarrow>
     ('p \<Rightarrow> OutMsg list) \<Rightarrow> ('i, 'o, 'p) app \<Rightarrow> bool" where
  "kept good gc gm ci co cp s \<longleftrightarrow>
     good (app_tib s) \<and> list_all gc (ci (inbound s)) \<and> list_all gm (co (outbound s)) \<and> list_all gm (cp (samples s)) \<and>
     list_all gm (in_hand s) \<and> list_all (\<lambda>p. \<exists>m i. p = publish_param m i \<and> gm m) (published s)"

text \<open>
  The interface between the sources of messages and the queues: when the callback makes such commands and such messages, the
  photodiode thread makes such messages and the dispatcher turns such commands into such messages, then the application, however its
  threads interleave, keeps the three properties.
\<close>

locale message_rule =
  fixes lib :: "json_lib \<Rightarrow> bool" and good :: "tib \<Rightarrow> bool" and gc :: "Command \<Rightarrow> bool" and gm :: "OutMsg \<Rightarrow> bool"
  assumes accepted: "command_of pub c \<Longrightarrow> gc c"
    and busy: "command_of pub c \<Longrightarrow> gm (busy_response c)"
    and refused: "refusal m \<Longrightarrow> gm m"
    and sampled: "gm (photodiode_message yj hk sec)"
    and answered: "lib (json R) \<Longrightarrow> gc c \<Longrightarrow> good t \<Longrightarrow> dispatch_command R c t = Some (om, t') \<Longrightarrow> gm om \<and> good t'"
begin

lemma receive_kept:
  assumes laws: "msgq_laws I ci idepth" "msgq_laws Q co odepth" and J: "json_in_place J" and s: "kept good gc gm ci co cp s"
    and run: "mqtt_command_handler J I Q pub (inbound s, outbound s) = (inq, outq)"
  shows "kept good gc gm ci co cp (s\<lparr>inbound := inq, outbound := outq\<rparr>)"
proof -
  have i: "list_all gc (ci (inbound s))" and o: "list_all gm (co (outbound s))" using s by (simp_all add: kept_def)
  have "list_all gc (ci inq) \<and> list_all gm (co outq)"
    using callback_cases [OF J, of I Q pub "inbound s" "outbound s"] unfolding run
  proof (elim disjE exE conjE)
    fix c
    assume c: "command_of pub c" and r: "(inq, outq) = (if fst (q_put I (inbound s) c) = 0 then (snd (q_put I (inbound s) c), outbound s)
       else (snd (q_put I (inbound s) c), snd (q_put Q (outbound s) (busy_response c))))"
    show ?thesis
      using r i o put_all [OF laws(1) i accepted [OF c]] put_all [OF laws(2) o busy [OF c]] by (auto split: if_splits)
  next
    fix c
    assume r: "(inq, outq) = (inbound s, snd (q_put Q (outbound s) (invalid_command_response c)))"
      and "cstr (out_topic (invalid_command_response c)) = default_topic" "out_corr_len (invalid_command_response c) = 0"
        "out_msg_wf (invalid_command_response c)"
    then have "gm (invalid_command_response c)" by (intro refused) (auto simp: refusal_def)
    then show ?thesis using r i put_all [OF laws(2) o] by auto
  qed (use i o in auto)
  then show ?thesis using s by (simp add: kept_def in_hand_def)
qed

lemma execute_kept:
  assumes laws: "msgq_laws I ci idepth" "msgq_laws Q co odepth" and J: "lib (json R)" and s: "kept good gc gm ci co cp s"
    and run: "executor_step R I Q s = Some s'"
  shows "kept good gc gm ci co cp s'"
proof (cases "executing s")
  case None
  show ?thesis
  proof (cases "q_get I (inbound s)")
    case (Some r)
    then obtain c inq where r: "q_get I (inbound s) = Some (c, inq)" by (cases r) auto
    then obtain om t where d: "dispatch_command R c (app_tib s) = Some (om, t)"
      "s' = s\<lparr>inbound := inq, app_tib := t, executing := Some om\<rparr>"
      using run None by (auto simp: executor_step_def split: option.splits)
    have "gc c" "good (app_tib s)" using s msgq_get_Some [OF laws(1) r] by (simp_all add: kept_def)
    from answered [OF J this d(1)] show ?thesis
      using s d(2) msgq_get_Some [OF laws(1) r] by (simp add: kept_def in_hand_def)
  qed (use run None s in \<open>simp add: executor_step_def\<close>)
next
  case (Some om)
  have "list_all gm (co (snd (q_put Q (outbound s) om)))"
    using s Some put_all [OF laws(2), of gm "outbound s" om] by (simp add: kept_def in_hand_def)
  then show ?thesis
    using run Some s by (auto simp: executor_step_def case_prod_unfold Let_def kept_def in_hand_def split: if_splits)
qed

lemma step_kept:
  assumes laws: "msgq_laws I ci idepth" "msgq_laws Q co odepth" "msgq_laws P cp pdepth" and J: "json_in_place J" "lib J"
    and pd: "0 < pdepth" and s: "kept good gc gm ci co cp s" and st: "app_step J I Q P s s'"
  shows "kept good gc gm ci co cp s'"
  using st
proof cases
  case (receive pub inq outq)
  then show ?thesis using receive_kept [OF laws(1,2) J(1) s receive(2)] by simp
next
  case (execute R)
  then show ?thesis using execute_kept [OF laws(1,2) _ s] J(2) by blast
next
  case (sample a pq slept)
  with samples_after [OF laws(3) pd sample(2)] show ?thesis
    using s sampled by (auto simp: kept_def in_hand_def)
next
  case (forward pq outq)
  with forward_samples_ends [OF laws(3,2), of "samples s" "outbound s"]
  have "cp pq = []" "co outq = co (outbound s) @ take (odepth - length (co (outbound s))) (cp (samples s))" by auto
  then show ?thesis
    using s forward(1) by (auto simp: kept_def in_hand_def list_all_iff dest: in_set_takeD)
next
  case (publish om outq)
  have "co (outbound s) = om # co outq" by (rule msgq_get_Some [OF laws(2) publish(2)])
  then show ?thesis using s publish(1) by (auto simp: kept_def in_hand_def)
qed

lemma reachable_kept:
  assumes "app_reachable J I Q P s0 s" and "kept good gc gm ci co cp s0"
    and "msgq_laws I ci idepth" "msgq_laws Q co odepth" "msgq_laws P cp pdepth" "json_in_place J" "lib J" "0 < pdepth"
  shows "kept good gc gm ci co cp s"
  using assms by (induction rule: app_reachable.induct) (blast intro: step_kept)+

lemma fw_kept:
  assumes "main_init B iface reads resolve J I Q m0 = Some (Inr (t, s))" and "good t"
    and "user_state m0 = (inq, outq)" and "calls m0 = []" and "ci inq = []" and "co outq = []" and "list_all gm (cp pq)"
    and "msgq_laws I ci idepth" and "msgq_laws Q co odepth" and "msgq_laws P cp pdepth" and "0 < pdepth"
    and "json_in_place J" and "lib J" and "fw_reachable L J I Q P wdt uptime (fw_start t s pq) f"
  shows "kept good gc gm ci co cp (app_view f)"
proof -
  note i = main_init_facts [OF assms(1)]
  have "kept good gc gm ci co cp (app_view (fw_start t s pq))"
    using i assms(2-7) by (simp add: kept_def in_hand_def app_view_def fw_start_def)
  from reachable_kept [OF fw_app_reachable [OF assms(1,14)] this assms(8-10,12,13,11)] show ?thesis .
qed

end

section \<open>Sizes and coils\<close>

lemma out_wf_typed: "out_msg_wf m \<Longrightarrow> out_typed m"
  by (simp add: out_msg_wf_def out_typed_def)

lemma calm_calmly: "calm h \<Longrightarrow> calmly t h h' \<Longrightarrow> calm h'"
  by (auto simp: calmly_def intro: calm_append)

interpretation sized: message_rule "\<lambda>_. True" "\<lambda>t. tib_typed t \<and> calm (history t)" command_wf out_typed
proof
  show "out_typed (busy_response c)" for c by (simp add: busy_response_def msg_builder_typed)
  show "out_typed (photodiode_message yj hk sec)" for yj hk sec by (simp add: out_wf_typed photodiode_message_facts(3))
  show "out_typed om \<and> tib_typed t' \<and> calm (history t')"
    if "tib_typed t \<and> calm (history t)" "command_wf c" "dispatch_command R c t = Some (om, t')" for R c t om t'
    using timed_dispatch.timely [of t R c om t'] that by (auto intro: calm_calmly)
qed (auto simp: command_of_queued refusal_def out_wf_typed)

lemma boot_safe:
  assumes "boot B = Some t"
  shows "tib_typed t" and "calm (history t)"
proof -
  have e: "list_all (\<lambda>e. drive [] e = []) (snd (devices_ready B []))" by (simp add: devices_ready_history)
  have "tib_typed t \<and> calm (history t)"
  proof (cases "expander_ready B")
    case True
    let ?h = "snd (devices_ready B [])"
    have "t = booted ?h" using assms setup_eval [OF True, of ?h] by (simp add: boot_def case_prod_unfold)
    moreover have "history (booted ?h) = ?h @ booted_io" by (simp add: booted_def setup_attenuators_def)
    moreover have "list_all (\<lambda>e. drive [] e = []) booted_io" by code_simp
    ultimately show ?thesis using e booted_typed by (simp add: calm_concat)
  next
    case False
    then have t: "t = setup_attenuators (tib_zero\<lparr>history := snd (devices_ready B [])\<rparr>)"
      using assms by (simp add: boot_def setup_mems_switches_and_routes_def case_prod_unfold)
    have "tib_typed (setup_attenuators tib_zero)"
      by (simp add: tib_typed_def setup_attenuators_def tib_zero_def router_wf_def MEMS_ROUTER_MAX_SWITCHES_def
          NUM_ATTENUATORS_def) code_simp
    then show ?thesis using e unfolding t by (simp add: setup_attenuators_def calm_concat tib_typed_def)
  qed
  then show "tib_typed t" "calm (history t)" by simp_all
qed

lemma fw_sized:
  assumes "main_init B iface reads resolve J I Q m0 = Some (Inr (t, s))"
    and "user_state m0 = (inq, outq)" and "calls m0 = []" and "ci inq = []" and "co outq = []" and "list_all out_typed (cp pq)"
    and "msgq_laws I ci idepth" and "msgq_laws Q co odepth" and "msgq_laws P cp pdepth" and "0 < pdepth" and "json_in_place J"
    and "fw_reachable L J I Q P wdt uptime (fw_start t s pq) f"
  shows "kept (\<lambda>t. tib_typed t \<and> calm (history t)) command_wf out_typed ci co cp (app_view f)"
  using sized.fw_kept [OF assms(1) _ assms(2-11) TrueI assms(12)] boot_safe main_init_facts(1) [OF assms(1)] by blast

section \<open>Properties from power-up\<close>

text \<open>
  C8: Type safety of the data: from power-up, whether or not the port expander came up, in every state the firmware can reach every array
  of the box, of a queued command, of a queued message and of the reply in hand has the size its declaration gives it, every
  switch pointer is into the array of switches, and every counter fits its array.
\<close>

theorem firmware_types:
  assumes "main_init B iface reads resolve J I Q m0 = Some (Inr (t, s))"
    and "user_state m0 = (inq, outq)" and "calls m0 = []" and "ci inq = []" and "co outq = []"
    and "list_all out_typed (cp pq)"
    and "msgq_laws I ci idepth" and "msgq_laws Q co odepth" and "msgq_laws P cp pdepth" and "0 < pdepth" and "json_in_place J"
    and "fw_reachable L J I Q P wdt uptime (fw_start t s pq) f"
  shows "tib_typed (fw_tib f) \<and> list_all command_wf (ci (inbound (app_view f))) \<and> list_all out_typed (co (outbound (app_view f))) \<and>
    list_all out_typed (cp (fw_samples f)) \<and> list_all out_typed (in_hand (app_view f))"
  using fw_sized [OF assms] by (simp add: kept_def app_view_def)

text \<open>
  C6: Two coils are never driven at the same time: from power-up, whatever commands arrive and however the threads interleave, at every
  moment of the history of the board at most one of the sixteen pins of the switches is high, and between two steps of
  the executor none is.
\<close>

theorem firmware_drives_one_coil:
  assumes "main_init B iface reads resolve J I Q m0 = Some (Inr (t, s))"
    and "user_state m0 = (inq, outq)" and "calls m0 = []" and "ci inq = []" and "co outq = []"
    and "list_all out_typed (cp pq)"
    and "msgq_laws I ci idepth" and "msgq_laws Q co odepth" and "msgq_laws P cp pdepth" and "0 < pdepth" and "json_in_place J"
    and "fw_reachable L J I Q P wdt uptime (fw_start t s pq) f"
  shows "length (driven (take n (history (fw_tib f)))) \<le> 1 \<and> driven (history (fw_tib f)) = []"
  using fw_sized [OF assms] by (simp add: kept_def calm_def app_view_def)


lemma tib_run_safe:
  assumes "tib_init = Some (Inr (t, tib_main))" and "tib_reachable (fw_start t tib_main []) f"
  shows "main_init quiet_platform True (\<lambda>i. i = 3)
     (\<lambda>host port. (0, Some \<lparr>sin_family = AF_INET, sin_addr = 1, sin_port = 1883\<rparr>)) get_json (list_msgq 2) (list_msgq 8)
     (idle_client ([], [])) = Some (Inr (t, tib_main))"
    and "user_state (idle_client ([], [])) = ([], [])" and "calls (idle_client ([], [])) = []" and "([] :: Command list) = []" and "([] :: OutMsg list) = []"
    and "list_all out_typed []"
    and "msgq_laws (list_msgq 2) (\<lambda>q :: Command list. q) 2" and "msgq_laws (list_msgq 8) (\<lambda>q :: OutMsg list. q) 8"
    and "msgq_laws (list_msgq 4) (\<lambda>q :: OutMsg list. q) 4" and "0 < (4 :: nat)" and "json_in_place get_json"
    and "tib_reachable (fw_start t tib_main []) f"
  using assms by (simp_all add: idle_facts list_msgq_laws get_json_in_place)

theorem firmware_types_witness:
  "\<exists>t f. tib_init = Some (Inr (t, tib_main)) \<and> tib_reachable (fw_start t tib_main []) f \<and>
     length (in_hand (app_view f)) = 1 \<and> list_all out_typed (in_hand (app_view f)) \<and> tib_typed (fw_tib f)"
proof -
  obtain t f where r: "tib_init = Some (Inr (t, tib_main))" "tib_reachable (fw_start t tib_main []) f"
    "length (in_hand (app_view f)) = 1" using tib_run by blast
  from firmware_types [OF tib_run_safe [OF r(1,2)]] r show ?thesis by blast
qed

theorem firmware_drives_one_coil_witness:
  "\<exists>t f. tib_init = Some (Inr (t, tib_main)) \<and> tib_reachable (fw_start t tib_main []) f \<and>
     length (in_hand (app_view f)) = 1 \<and> length (driven (take 5 (history (fw_tib f)))) \<le> 1"
proof -
  obtain t f where r: "tib_init = Some (Inr (t, tib_main))" "tib_reachable (fw_start t tib_main []) f"
    "length (in_hand (app_view f)) = 1" using tib_run by blast
  from firmware_drives_one_coil [OF tib_run_safe [OF r(1,2)]] r show ?thesis by blast
qed


end
