(* ===== verification/Firmware_Replies.thy ===== *)
theory Firmware_Replies
  imports Firmware_Safety
begin

text \<open>
  What the box answers: the reply to a request as a function of its key and type and of the state of the box, and
  that nothing else is ever published.
\<close>

section \<open>What the box answers\<close>

definition power_json :: "bool \<Rightarrow> string" where
  "power_json on = ''{'' @ quoted ''power'' @ '':'' @ (if on then ''true'' else ''false'') @ ''}''"

definition routes_json :: "tib \<Rightarrow> string" where
  "routes_json s =
     ''{'' @ quoted ''active_routes'' @ '':{'' @
     commas (map (\<lambda>rt. quoted (cstr (input_name (route_key rt))) @ '':'' @ quoted (cstr (output_name (route_key rt))))
               (filter (route_active (mems_switches s) (router s)) (router_routes (router s)))) @ ''}}''"

definition expected_reply :: "string \<Rightarrow> MsgType \<Rightarrow> bool \<Rightarrow> tib \<Rightarrow> MsgType \<times> string" where
  "expected_reply key t on s =
     (let error = (\<lambda>e. (RESP_ERROR, json_error e)) in
      if key = ''memsroute'' then if t = SET then error ''Failed to parse JSON input or output'' else (RESP_OK, routes_json s)
      else if key = ''power'' then if t = SET then error ''Missing setting value'' else (RESP_OK, power_json on)
      else if key = ''status'' then if t = SET then error ''Unsupported operation'' else (RESP_OK, power_json on)
      else if key = ''sleep'' then if t = SET then error ''Missing setting value'' else error ''Unsupported operation''
      else if key = ''mems'' then error ''Failed to parse mems switch name''
      else if key = ''laser'' then error ''Failed to parse laser/setting''
      else if key = ''atten'' then if t = SET then error ''Failed to parse laser/setting'' else error ''Failed to parse atten/setting''
      else error ''Unknown request'')"

lemma json_error_cstr: "NUL \<notin> set e \<Longrightarrow> cstr (json_error e) = json_error e"
  by (rule cstr_id) (simp add: json_error_def quoted_def NUL_def)

lemma reply_gives:
  "c_strlen msg \<le> 255 \<Longrightarrow> cstr msg = e \<Longrightarrow>
     \<exists>m. reply c t msg s = Some (m, s) \<and> (out_msg_type m, cstr (out_payload m)) = (t, e)"
  by (simp add: reply_def msg_builder_payload)

lemma error_gives:
  "length e \<le> 200 \<Longrightarrow> NUL \<notin> set e \<Longrightarrow>
     \<exists>m. reply c RESP_ERROR (json_error e) s = Some (m, s) \<and> (out_msg_type m, cstr (out_payload m)) = (RESP_ERROR, json_error e)"
  by (rule reply_gives) (simp_all add: json_error_short json_error_cstr)

lemma power_text_cstr: "cstr (power_text on) = power_json on"
  unfolding power_text_def power_json_def by (rule payload_text_id) (cases on; simp add: quoted_def NUL_def)+

lemma power_gives:
  "\<exists>m. reply c RESP_OK (power_text on) s = Some (m, s) \<and> (out_msg_type m, cstr (out_payload m)) = (RESP_OK, power_json on)"
  by (rule reply_gives) (simp_all add: power_text_short power_text_cstr)

lemma memsroute_gives:
  assumes "tib_inv s"
  shows "\<exists>m. memsroute_get R c s = Some (m, s) \<and> (out_msg_type m, cstr (out_payload m)) = (RESP_OK, routes_json s)"
  using memsroute_answer [OF assms, of R c] by (auto simp: routes_json_def)

definition asks_power :: "string \<Rightarrow> MsgType \<Rightarrow> bool" where
  "asks_power key t \<longleftrightarrow> key \<in> {''power'', ''status''} \<and> t \<noteq> SET"

lemma power_get_gives:
  "\<exists>m. power_get R c s = Some (m, s\<lparr>history := history s @ [Power_get]\<rparr>) \<and>
     (out_msg_type m, cstr (out_payload m)) = (RESP_OK, power_json (fst (power_enabled (board R) (history s))))"
  "\<exists>m. status_get R c s = Some (m, s\<lparr>history := history s @ [Power_get]\<rparr>) \<and>
     (out_msg_type m, cstr (out_payload m)) = (RESP_OK, power_json (fst (power_enabled (board R) (history s))))"
  using power_gives by (simp_all add: power_get_def status_get_def case_prod_unfold Let_def power_enabled_history)

lemma request_answer_keys:
  assumes "cmd_payload_len c = 0" and "json_rejects_empty (json R)" and "tib_inv s"
  shows "\<exists>m s'. dispatch_command R c s = Some (m, s') \<and>
     (out_msg_type m, cstr (out_payload m)) =
       expected_reply (cstr (cmd_key c)) (cmd_msg_type c) (fst (power_enabled (board R) (history s))) s \<and>
     s' = (if asks_power (cstr (cmd_key c)) (cmd_msg_type c) then s\<lparr>history := history s @ [Power_get]\<rparr> else s)"
proof -
  have b: "slash \<notin> set (cstr (cmd_key c))" if "cstr (cmd_key c) \<in> {''mems'', ''laser'', ''atten''}"
    using that by auto
  have r: "memsroute_set R c s = reply c RESP_ERROR (json_error ''Failed to parse JSON input or output'') s"
    "power_set R c s = reply c RESP_ERROR (json_error ''Missing setting value'') s"
    "sleep_set R c s = reply c RESP_ERROR (json_error ''Missing setting value'') s"
    using assms(1,2)
    by (auto simp: json_rejects_empty_def memsroute_set_def power_set_def sleep_set_def case_prod_unfold)
  have u: "Some (unknown_response c, s) = reply c RESP_ERROR (json_error ''Unknown request'') s"
    "Some (unsupported_response c, s) = reply c RESP_ERROR (json_error ''Unsupported operation'') s"
    by (simp_all add: unknown_response_def unsupported_response_def reply_def)
  have e: "\<exists>m s'. reply c RESP_ERROR (json_error e) s = Some (m, s') \<and>
      (out_msg_type m, cstr (out_payload m)) = (RESP_ERROR, json_error e) \<and> s' = s"
    if "length e \<le> 200" "NUL \<notin> set e" for e
    using error_gives [OF that, of c s] by blast
  consider (bare) "cstr (cmd_key c) \<in> {''mems'', ''laser'', ''atten''}" | (route) "cstr (cmd_key c) = ''memsroute''"
    | (power) "cstr (cmd_key c) = ''power''" | (status) "cstr (cmd_key c) = ''status''" | (sleep) "cstr (cmd_key c) = ''sleep''"
    | (unknown) "cstr (cmd_key c) \<notin> {''memsroute'', ''mems'', ''laser'', ''power'', ''atten'', ''status'', ''sleep''}" by blast
  then show ?thesis
  proof cases
    case bare
    with e bare_keys_refused [OF b [OF bare], of R s] show ?thesis
      unfolding dispatch_cases by (auto simp: expected_reply_def asks_power_def NUL_def)
  next
    case route
    with e r memsroute_gives [OF assms(3), of R c] show ?thesis
      unfolding dispatch_cases by (auto simp: expected_reply_def asks_power_def NUL_def)
  next
    case power
    with e r power_get_gives(1) [of R c s] show ?thesis
      unfolding dispatch_cases by (auto simp: expected_reply_def asks_power_def NUL_def)
  next
    case status
    with e u power_get_gives(2) [of R c s] show ?thesis
      unfolding dispatch_cases by (auto simp: expected_reply_def asks_power_def NUL_def)
  next
    case sleep
    with e u r show ?thesis
      unfolding dispatch_cases by (auto simp: expected_reply_def asks_power_def NUL_def)
  next
    case unknown
    with e u show ?thesis
      unfolding dispatch_cases by (auto simp: expected_reply_def asks_power_def NUL_def)
  qed
qed

section \<open>Everything the box says\<close>

definition said :: "OutMsg \<Rightarrow> bool" where
  "said m \<longleftrightarrow>
     (\<exists>yj hk sec. m = photodiode_message yj hk sec) \<or> refusal m \<or>
     (\<exists>pub c. command_of pub c \<and>
        (m = busy_response c \<or>
         (\<exists>on t. tib_inv t \<and> answers c m \<and>
            (out_msg_type m, cstr (out_payload m)) = expected_reply (suffix_of pub) (cmd_msg_type c) on t)))"

interpretation spoken: message_rule json_rejects_empty tib_inv "\<lambda>c. \<exists>pub. command_of pub c" said
proof
  show "said om \<and> tib_inv t'"
    if J: "json_rejects_empty (json R)" and c: "\<exists>pub. command_of pub c" and t: "tib_inv t"
      and d: "dispatch_command R c t = Some (om, t')" for R c t om t'
  proof -
    obtain pub where pub: "command_of pub c" using c by blast
    then have w: "command_wf c" "cmd_payload_len c = 0" "cstr (cmd_key c) = suffix_of pub"
      by (simp_all add: command_of_def queued_ok_def)
    from dispatch.contract [OF t w(1) d] have a: "tib_inv t'" "answers c om" by simp_all
    have "(out_msg_type om, cstr (out_payload om)) =
        expected_reply (suffix_of pub) (cmd_msg_type c) (fst (power_enabled (board R) (history t))) t"
      using request_answer_keys [OF w(2) J t] d w(3) by auto
    with a pub t show ?thesis unfolding said_def by blast
  qed
qed (auto simp: said_def)


lemma status_command_asks: "\<exists>c. command_of status_request c \<and> cmd_msg_type c = GET"
proof -
  have f: "accepted_prefix status_request" "\<not> MAX_PAYLOAD_LEN \<le> length (payload_data status_request)"
    "snd (mqtt_command_handler get_json (list_msgq 2) (list_msgq 8) status_request ([], [])) = []"
    "map cmd_msg_type (fst (mqtt_command_handler get_json (list_msgq 2) (list_msgq 8) status_request ([], []))) = [GET]"
    by code_simp+
  then show ?thesis
    using callback_cases [OF get_json_in_place, of "list_msgq 2" "list_msgq 8" status_request "[]" "[]"]
    by (auto simp: list_msgq_def)
qed




end
