(* ===== verification/Json_Tokens.thy ===== *)
theory Json_Tokens
  imports Firmware_Replies Json_Utils
begin

text \<open>
  What becomes of the requests when the JSON library does what its documentation says with the descriptors of this program: the
  message type is declared \<open>JSON_TOK_STRING\<close>, which stores a pointer, but its field is an array of characters.
\<close>

section \<open>A string token in a character array\<close>

text \<open>
  The documented behaviour of \<open>json_obj_parse\<close> on a field of type \<open>JSON_TOK_STRING\<close>: it stores a \<open>char *\<close>, the address of the
  token in the text it parses. Both parsers of the message type give it a field that is an array, \<open>char msg_type[8]\<close>, set to zero
  before: on the 32-bit little-endian target the first four bytes of the array become the bytes of an address in the RAM of the
  chip, or the array stays zero when the object has no such field.
\<close>

definition in_sram :: "u32 \<Rightarrow> bool" where
  "in_sram p \<longleftrightarrow> 0x20000000 \<le> p \<and> p < 0x20082000"

definition pointer_bytes :: "u32 \<Rightarrow> string" where
  "pointer_bytes p = map (\<lambda>i. char_of (unat (drop_bit (8 * i) p) mod 256)) [0, 1, 2, 3]"

definition stores_pointers :: "json_lib \<Rightarrow> bool" where
  "stores_pointers J \<longleftrightarrow>
     (\<forall>t. snd (snd (json_msg_type J t)) = replicate 8 NUL \<or>
          (\<exists>p. in_sram p \<and> snd (snd (json_msg_type J t)) = pointer_bytes p @ replicate 4 NUL))"

lemma sram_top_byte: "in_sram p \<Longrightarrow> unat (drop_bit 24 p) = 32"
proof -
  assume "in_sram p"
  then have "0x20000000 \<le> unat p" "unat p < 0x20082000"
    by (simp_all add: in_sram_def word_le_nat_alt word_less_nat_alt)
  then have "unat p div 2 ^ 24 = 32" by simp
  then show ?thesis by (simp add: unat_drop_bit_eq drop_bit_eq_div unat_div)
qed

text \<open>The last byte of such an address is neither a letter nor the end of the text.\<close>

lemma pointer_is_no_word:
  assumes "in_sram p" and "length w = 3" and "NUL \<notin> set w"
  shows "c_strncasecmp (pointer_bytes p @ replicate 4 NUL) w 4 \<noteq> 0"
proof
  assume eq: "c_strncasecmp (pointer_bytes p @ replicate 4 NUL) w 4 = 0"
  have "char_of (32 :: nat) = CHR '' ''" by code_simp
  then obtain a b c where b: "pointer_bytes p = [a, b, c, CHR '' '']"
    using sram_top_byte [OF assms(1)] by (auto simp: pointer_bytes_def)
  have w: "cstr w = w" using assms(3) by (rule cstr_id)
  from arg_cong [OF eq [unfolded c_strncasecmp_0_iff w], of length] assms(2)
  have "length (take 4 (cstr (pointer_bytes p @ replicate 4 NUL))) = 3" by simp
  then show False by (auto simp: b cstr_def NUL_def split: if_splits)
qed

lemma zero_is_no_word: "length w = 3 \<Longrightarrow> NUL \<notin> set w \<Longrightarrow> c_strncasecmp (replicate 8 NUL) w 4 \<noteq> 0"
proof -
  assume w: "length w = 3" "NUL \<notin> set w"
  have "cstr (replicate 8 NUL) = []" by (simp add: cstr_def)
  moreover have "cstr w = w" using w(2) by (rule cstr_id)
  ultimately show ?thesis using w(1) by (auto simp: c_strncasecmp_0_iff)
qed

lemma no_word:
  assumes "stores_pointers J" and "length w = 3" and "NUL \<notin> set w"
  shows "c_strncasecmp (snd (snd (json_msg_type J t))) w 4 \<noteq> 0"
  using assms(1) [unfolded stores_pointers_def, THEN spec, of t] pointer_is_no_word [OF _ assms(2,3)]
    zero_is_no_word [OF assms(2,3)] by auto

lemma words: "length ''get'' = 3" "NUL \<notin> set ''get''" "length ''set'' = 3" "NUL \<notin> set ''set''"
  by (simp_all add: NUL_def)

text \<open>
  No message type is ever understood: whatever the payload, neither the application's parser nor the one of \<open>lib/coo_commons\<close>
  reads \<open>get\<close> or \<open>set\<close> from it, since what they compare is the address of the word and not the word.
\<close>

lemma no_message_type_understood:
  assumes "stores_pointers J"
  shows "fst (parse_msg_type_from_payload J payload) = None \<and>
    fst (coo_json_parse_msg_type (json_msg_type J) payload) = None"
  using no_word [OF assms words(1,2), of "cstr payload"] no_word [OF assms words(3,4), of "cstr payload"]
  by (simp add: parse_msg_type_from_payload_def coo_json_parse_msg_type_def case_prod_unfold Let_def)

text \<open>An instance: the word is 16 bytes into a buffer at \<open>0x20001000\<close>.\<close>

definition pointer_json :: json_lib where
  "pointer_json = get_json\<lparr>json_msg_type := \<lambda>t. (1, t, [CHR 0x10, CHR 0x10, CHR 0x00, CHR 0x20] @ replicate 4 NUL)\<rparr>"

lemma pointer_json_facts: "json_in_place pointer_json" "stores_pointers pointer_json"
proof -
  have "pointer_bytes 0x20001010 = map char_of [0x10, 0x10, 0, 0x20 :: nat]"
    by (simp add: pointer_bytes_def unat_drop_bit_eq drop_bit_eq_div unat_div)
  also have "\<dots> = [CHR 0x10, CHR 0x10, CHR 0x00, CHR 0x20]" by code_simp
  finally have "pointer_bytes 0x20001010 = [CHR 0x10, CHR 0x10, CHR 0x00, CHR 0x20]" "in_sram 0x20001010"
    by (simp_all add: in_sram_def)
  then show "stores_pointers pointer_json" unfolding stores_pointers_def pointer_json_def
    by (intro allI disjI2 exI [of _ "0x20001010"]) simp
qed (simp add: json_in_place_def pointer_json_def)

section \<open>A box that hears nothing\<close>

lemma handler_refuses:
  assumes "stores_pointers J"
  shows "fst (mqtt_command_handler J I Q pub (inq, outq)) = inq"
proof -
  have "fst (parsed_command J pub) = None"
    using no_message_type_understood [OF assms] by (simp add: parsed_command_def case_prod_unfold Let_def)
  then show ?thesis by (simp add: handler_cases Let_def)
qed

text \<open>Nothing was accepted, taken or done.\<close>

definition deaf :: "('i \<Rightarrow> Command list) \<Rightarrow> tib \<Rightarrow> ('i, 'o, 'p) app \<Rightarrow> bool" where
  "deaf ci t s \<longleftrightarrow> app_tib s = t \<and> ci (inbound s) = [] \<and> executing s = None"

lemma step_deaf:
  assumes "msgq_laws I ci idepth" and "stores_pointers J" and s: "deaf ci t s" and st: "app_step J I Q P s s'"
  shows "deaf ci t s'"
  using st
proof cases
  case (receive pub inq outq)
  with handler_refuses [OF assms(2), of I Q pub "inbound s" "outbound s"] have "inq = inbound s" by simp
  with receive(1) s show ?thesis by (simp add: deaf_def)
next
  case (execute R)
  then show ?thesis using s msgq_get_empty [OF assms(1)] by (simp add: executor_step_def deaf_def)
qed (use s in \<open>simp_all add: deaf_def\<close>)

lemma reachable_deaf:
  assumes "app_reachable J I Q P s0 s" and "deaf ci t s0" and "msgq_laws I ci idepth" and "stores_pointers J"
  shows "deaf ci t s"
  using assms by (induction rule: app_reachable.induct) (blast intro: step_deaf)+

text \<open>
  C22: The box hears nothing: with a JSON library that stores pointers, from power-up, whatever messages arrive and however the threads
  interleave, no command is ever accepted or executed, and the box stays as it was set up.
\<close>

theorem firmware_hears_nothing:
  assumes "main_init B iface reads resolve J I Q m0 = Some (Inr (t, s))"
    and "user_state m0 = (inq, outq)" and "ci inq = []" and "msgq_laws I ci idepth"
    and "stores_pointers J" and "fw_reachable L J I Q P wdt uptime (fw_start t s pq) f"
  shows "fw_tib f = t \<and> ci (inbound (app_view f)) = [] \<and> in_hand (app_view f) = []"
proof -
  have "deaf ci t (app_view (fw_start t s pq))"
    using main_init_facts [OF assms(1)] assms(2,3) by (simp add: deaf_def app_view_def fw_start_def)
  from reachable_deaf [OF fw_app_reachable [OF assms(1,6)] this assms(4,5)] show ?thesis
    by (simp add: deaf_def in_hand_def app_view_def)
qed

text \<open>A request that arrives in such a box: the connection of \<open>request_then_drop\<close>.\<close>

definition deaf_main :: "(Command list, OutMsg list) main_state" where
  "deaf_main = tib_main\<lparr>mq := coo_mqtt_set_message_callback
     (Some (mqtt_command_handler pointer_json (list_msgq 2) (list_msgq 8))) (mq tib_main)\<rparr>"

lemma init_other_json:
  assumes "main_init B iface reads resolve J I Q m0 = Some (Inr (t, s))"
  shows "main_init B iface reads resolve J' I Q m0 =
    Some (Inr (t, s\<lparr>mq := coo_mqtt_set_message_callback (Some (mqtt_command_handler J' I Q)) (mq s)\<rparr>))"
  using assms
  by (auto simp: main_init_def coo_mqtt_set_message_callback_def case_prod_unfold Let_def split: option.splits if_splits)

lemma deaf_session:
  "\<exists>s'. main_session request_then_drop (list_msgq 8) True (\<lambda>h. 100 * int (length h)) deaf_main = Some s' \<and>
     length (snd (user_state (mq s'))) = 1"
proof -
  let ?s = "one_pass request_then_drop (list_msgq 8) True (\<lambda>h. 100 * int (length h)) deaf_main"
  have "\<not> Option.is_none ?s" "length (snd (user_state (mq (the ?s)))) = 1"
    by code_simp+
  then show ?thesis by (auto simp: Option.is_none_def intro: one_pass_session)
qed

theorem firmware_hears_nothing_witness:
  "\<exists>t f. main_init quiet_platform True (\<lambda>i. i = 3)
       (\<lambda>host port. (0, Some \<lparr>sin_family = AF_INET, sin_addr = 1, sin_port = 1883\<rparr>)) pointer_json (list_msgq 2) (list_msgq 8)
       (idle_client ([], [])) = Some (Inr (t, deaf_main)) \<and>
     fw_reachable request_then_drop pointer_json (list_msgq 2) (list_msgq 8) (list_msgq 4) True (\<lambda>h. 100 * int (length h))
       (fw_start t deaf_main []) f \<and>
     length (outbound (app_view f)) = 1 \<and> fw_tib f = t \<and> inbound (app_view f) = []"
proof -
  let ?Q = "list_msgq 8 :: (OutMsg list, OutMsg) msgq" and ?U = "\<lambda>h :: sys_call list. 100 * int (length h)"
  obtain t where t: "tib_init = Some (Inr (t, tib_main))" using tib_init_eval by blast
  have i: "main_init quiet_platform True (\<lambda>i. i = 3)
       (\<lambda>host port. (0, Some \<lparr>sin_family = AF_INET, sin_addr = 1, sin_port = 1883\<rparr>)) pointer_json (list_msgq 2) (list_msgq 8)
       (idle_client ([], [])) = Some (Inr (t, deaf_main))"
    unfolding deaf_main_def by (rule init_other_json [OF t])
  obtain s' where s': "main_session request_then_drop ?Q True ?U deaf_main = Some s'" "length (snd (user_state (mq s'))) = 1"
    using deaf_session by blast
  let ?f0 = "fw_start t deaf_main [] :: (Command list, OutMsg list, OutMsg list) firmware"
  let ?g = "?f0\<lparr>fw_pc := Starting, fw_main := s'\<rparr>"
  obtain n where n: "main_ticks n request_then_drop ?Q True ?U (Starting, deaf_main) = Some (Starting, s')"
    using session_ticks [OF s'(1)] unfolding leads_to_def by blast
  have r: "fw_reachable request_then_drop pointer_json (list_msgq 2) ?Q (list_msgq 4) True ?U ?f0 ?g"
    by (rule ticks_reachable [where f = ?f0 and n = n]) (use n in \<open>simp add: fw_start_def\<close>)
  have "fw_tib ?g = t \<and> inbound (app_view ?g) = [] \<and> in_hand (app_view ?g) = []"
    by (rule firmware_hears_nothing [where ci = "\<lambda>q. q", OF i idle_facts(1) refl list_msgq_laws pointer_json_facts(2) r])
  moreover have "length (outbound (app_view ?g)) = 1" using s'(2) by (simp add: app_view_def)
  ultimately show ?thesis using i r by (intro exI [of _ t] exI [of _ ?g]) simp
qed

end
