(* ===== verification/Json_Layout.thy ===== *)
theory Json_Layout
  imports Json_Utils Mems_Switching
begin

text \<open>
  The structures the program hands to the JSON library and the descriptors it describes them with, as they lie in the memory of the
  32-bit little-endian target: offsets and sizes, how far a parse writes, what an encoder reads. The types the library stores
  and reads for its tokens are those of its documentation.
\<close>

section \<open>Little-endian memory\<close>

text \<open>The low \<open>n\<close> bytes of a number, the number of some bytes, and the bytes that a store leaves in a piece of memory.\<close>

fun le :: "nat \<Rightarrow> nat \<Rightarrow> u8 list" where
  "le 0 x = []"
| "le (Suc n) x = of_nat x # le n (x div 256)"

fun of_le :: "u8 list \<Rightarrow> nat" where
  "of_le [] = 0"
| "of_le (b # bs) = unat b + 256 * of_le bs"

definition mem_store :: "u8 list \<Rightarrow> nat \<Rightarrow> u8 list \<Rightarrow> u8 list" where
  "mem_store mem off bs = take off mem @ bs @ drop (off + length bs) mem"

definition mem_load :: "u8 list \<Rightarrow> nat \<Rightarrow> nat \<Rightarrow> u8 list" where
  "mem_load mem off n = take n (drop off mem)"

lemma length_le [simp]: "length (le n x) = n"
  by (induction n arbitrary: x) simp_all

lemma le_4: "le 4 x = [of_nat x, of_nat (x div 2 ^ 8), of_nat (x div 2 ^ 16), of_nat (x div 2 ^ 24)]"
proof -
  have "(4 :: nat) = Suc (Suc (Suc (Suc 0)))" by simp
  then show ?thesis by (simp only: le.simps) (simp flip: div_mult2_eq)
qed

lemma le_2: "le 2 x = [of_nat x, of_nat (x div 256)]"
proof -
  have "(2 :: nat) = Suc (Suc 0)" by simp
  then show ?thesis by (simp only: le.simps)
qed

lemma take_le: "k \<le> n \<Longrightarrow> take k (le n x) = le k x"
proof (induction n arbitrary: k x)
  case (Suc n)
  then show ?case by (cases k) simp_all
qed simp

lemma drop_le: "k \<le> n \<Longrightarrow> drop k (le n x) = le (n - k) (x div 256 ^ k)"
proof (induction n arbitrary: k x)
  case (Suc n)
  then show ?case by (cases k) (simp_all add: div_mult2_eq)
qed simp

lemma of_le_le [simp]: "of_le (le n x) = x mod 256 ^ n"
proof (induction n arbitrary: x)
  case (Suc n)
  have "unat (of_nat x :: u8) = x mod 256" by (simp add: unat_of_nat)
  then show ?case using Suc [of "x div 256"] by (simp add: mod_mult2_eq)
qed simp

lemma of_le_append: "of_le (xs @ ys) = of_le xs + 256 ^ length xs * of_le ys"
  by (induction xs) (simp_all add: algebra_simps)

lemma load_store:
  assumes "off \<le> length mem"
  shows "mem_load (mem_store mem off bs) off (length bs) = bs"
    and "k \<le> length bs \<Longrightarrow> mem_load (mem_store mem off bs) off k = take k bs"
  using assms by (simp_all add: mem_load_def mem_store_def)

section \<open>The bits of a float\<close>

definition f32_of_bits :: "nat \<Rightarrow> fp" where
  "f32_of_bits n =
     (let neg = (n div 2 ^ 31 mod 2 = 1); e = n div 2 ^ 23 mod 256; m = n mod 2 ^ 23;
          mag = (if e = 0 then of_nat m * 2 powi -149 else of_nat (2 ^ 23 + m) * 2 powi (int e - 150))
      in if e = 255 then (if m = 0 then signed_inf neg else NaN)
         else if e = 0 \<and> m = 0 then signed_zero neg
         else Num (if neg then - mag else mag))"

lemma f32_examples:
  "f32_of_bits 0x3F800000 = Num 1" "f32_of_bits 0xC0200000 = Num (- 5 / 2)" "f32_of_bits 0x7F800000 = PInf"
  "f32_of_bits 0xFFFFFFFF = NaN" "f32_of_bits 0x80000000 = NZero" "f32_of_bits 0x3A800000 = Num (1 / 1024)"
  by (simp_all add: f32_of_bits_def Let_def signed_inf_def signed_zero_def power_int_def power_one_over)

text \<open>The non-negative patterns are ordered as the numbers they stand for.\<close>

lemma f32_small:
  assumes "n < 0x3A800000"
  shows "is_finite (f32_of_bits n)" and "0 \<le> fval (f32_of_bits n)" and "fval (f32_of_bits n) \<le> 1 / 1024"
proof -
  let ?e = "n div 2 ^ 23" and ?m = "n mod 2 ^ 23"
  have e: "?e < 117" using assms by (simp add: div_less_iff_less_mult)
  then have s: "n div 2 ^ 31 mod 2 = 0" using assms by simp
  have e': "?e mod 256 = ?e" using e by simp
  have m: "?m < 2 ^ 23" by simp
  let ?mag = "(if ?e = 0 then of_nat ?m * 2 powi -149 else of_nat (2 ^ 23 + ?m) * 2 powi (int ?e - 150)) :: rat"
  have f: "f32_of_bits n = (if ?e = 0 \<and> ?m = 0 then Num 0 else Num ?mag)"
    using e unfolding f32_of_bits_def Let_def e' s by (simp add: signed_zero_def)
  have "?mag \<le> of_nat (2 ^ 24) * 2 powi (-34)"
  proof (cases "?e = 0")
    case True
    have "(of_nat ?m :: rat) \<le> of_nat (2 ^ 24)" using m by (intro of_nat_mono) simp
    moreover have "(2::rat) powi -149 \<le> 2 powi (-34)" by (rule power_int_increasing) simp_all
    ultimately have "of_nat ?m * 2 powi -149 \<le> (of_nat (2 ^ 24) * 2 powi (-34) :: rat)" by (rule mult_mono) simp_all
    then show ?thesis unfolding if_P [OF True] .
  next
    case False
    have "(of_nat (2 ^ 23 + ?m) :: rat) \<le> of_nat (2 ^ 24)" using m by (intro of_nat_mono) simp
    moreover have "(2::rat) powi (int ?e - 150) \<le> 2 powi (-34)" using e by (intro power_int_increasing) simp_all
    ultimately have "of_nat (2 ^ 23 + ?m) * 2 powi (int ?e - 150) \<le> (of_nat (2 ^ 24) * 2 powi (-34) :: rat)" by (rule mult_mono) simp_all
    then show ?thesis unfolding if_not_P [OF False] .
  qed
  also have "(of_nat (2 ^ 24) :: rat) * 2 powi (-34) = 1 / 1024" by (simp add: power_int_def power_one_over)
  finally have le: "?mag \<le> 1 / 1024" .
  have "0 \<le> ?mag" by simp
  with le show "is_finite (f32_of_bits n)" "0 \<le> fval (f32_of_bits n)" "fval (f32_of_bits n) \<le> 1 / 1024"
    unfolding f by auto
qed

section \<open>The structures and their descriptors\<close>

text \<open>
  The structures the program gives to \<open>json_obj_parse\<close>: the name, the size and the alignment of each member, on the 32-bit
  target, where \<open>int\<close>, \<open>size_t\<close>, \<open>float\<close> and pointers have four bytes.
\<close>

type_synonym members = "(string \<times> nat \<times> nat) list"

definition struct_json_value_string :: members where
  "struct_json_value_string = [(''value'', MEMS_SWITCH_NAME_LEN, 1)]"

definition struct_json_type_msg :: members where
  "struct_json_type_msg = [(''msg_type'', 8, 1)]"

definition struct_json_value_uint16 :: members where
  "struct_json_value_uint16 = [(''value'', 2, 2)]"

definition struct_json_value_bool :: members where
  "struct_json_value_bool = [(''value'', 1, 1)]"

definition struct_mems_route_id :: members where
  "struct_mems_route_id = [(''input'', MEMS_SOURCEDEST_MAX_LEN, 1), (''output'', MEMS_SOURCEDEST_MAX_LEN, 1)]"

definition struct_coeffs :: members where
  "struct_coeffs = [(''db2volt'', 12, 4), (''db2volt_len'', 4, 4), (''volt2db'', 12, 4), (''volt2db_len'', 4, 4)]"

definition struct_json_value_float :: members where
  "struct_json_value_float = [(''value'', 4, 4)]"

definition struct_coo_telemetry_msg :: members where
  "struct_coo_telemetry_msg = [(''timestamp'', 8, 8), (''device_id'', 4, 4), (''temperature'', 4, 4), (''status'', 4, 4)]"

datatype json_token = JSON_TOK_STRING | JSON_TOK_NUMBER | JSON_TOK_FLOAT | JSON_TOK_TRUE

datatype json_obj_descr =
    JSON_OBJ_DESCR_PRIM string json_token
  | JSON_OBJ_DESCR_ARRAY string nat string json_token

definition msg_type_descr :: "json_obj_descr list" where
  "msg_type_descr = [JSON_OBJ_DESCR_PRIM ''msg_type'' JSON_TOK_STRING]"

definition route_descr :: "json_obj_descr list" where
  "route_descr = [JSON_OBJ_DESCR_PRIM ''input'' JSON_TOK_STRING, JSON_OBJ_DESCR_PRIM ''output'' JSON_TOK_STRING]"

definition switch_descr :: "json_obj_descr list" where
  "switch_descr = [JSON_OBJ_DESCR_PRIM ''value'' JSON_TOK_STRING]"

definition laser_descr :: "json_obj_descr list" where
  "laser_descr = [JSON_OBJ_DESCR_PRIM ''value'' JSON_TOK_NUMBER]"

definition coeff_descr :: "json_obj_descr list" where
  "coeff_descr =
     [JSON_OBJ_DESCR_ARRAY ''db2volt'' 3 ''db2volt_len'' JSON_TOK_FLOAT,
      JSON_OBJ_DESCR_ARRAY ''volt2db'' 3 ''volt2db_len'' JSON_TOK_FLOAT]"

definition atten_value_descr :: "json_obj_descr list" where
  "atten_value_descr = [JSON_OBJ_DESCR_PRIM ''value'' JSON_TOK_NUMBER]"

definition power_descr :: "json_obj_descr list" where
  "power_descr = [JSON_OBJ_DESCR_PRIM ''value'' JSON_TOK_TRUE]"

definition telemetry_descr :: "json_obj_descr list" where
  "telemetry_descr =
     [JSON_OBJ_DESCR_PRIM ''timestamp'' JSON_TOK_NUMBER, JSON_OBJ_DESCR_PRIM ''device_id'' JSON_TOK_STRING,
      JSON_OBJ_DESCR_PRIM ''temperature'' JSON_TOK_FLOAT, JSON_OBJ_DESCR_PRIM ''status'' JSON_TOK_NUMBER]"

text \<open>The layout of a structure: each member at the next multiple of its alignment, the whole padded to the largest alignment.\<close>

definition align_up :: "nat \<Rightarrow> nat \<Rightarrow> nat" where
  "align_up n a = (n + (a - 1)) div a * a"

fun members_from :: "nat \<Rightarrow> members \<Rightarrow> (string \<times> nat) list" where
  "members_from off [] = []"
| "members_from off ((name, sz, al) # ms) = (name, align_up off al) # members_from (align_up off al + sz) ms"

fun end_from :: "nat \<Rightarrow> members \<Rightarrow> nat" where
  "end_from off [] = off"
| "end_from off ((name, sz, al) # ms) = end_from (align_up off al + sz) ms"

definition offset_of :: "members \<Rightarrow> string \<Rightarrow> nat" where
  "offset_of ms name = (case map_of (members_from 0 ms) name of Some off \<Rightarrow> off | None \<Rightarrow> 0)"

definition size_of :: "members \<Rightarrow> nat" where
  "size_of ms = align_up (end_from 0 ms) (foldr (\<lambda>(_, _, al) a. max al a) ms 1)"

lemma sizes:
  "size_of struct_json_type_msg = 8" "size_of struct_json_value_string = 24" "size_of struct_json_value_uint16 = 2"
  "size_of struct_json_value_bool = 1" "size_of struct_mems_route_id = 48" "size_of struct_coeffs = 32"
  "size_of struct_json_value_float = 4" "size_of struct_coo_telemetry_msg = 24"
  by code_simp+

lemma offsets:
  "offset_of struct_json_type_msg ''msg_type'' = 0" "offset_of struct_json_value_string ''value'' = 0"
  "offset_of struct_json_value_uint16 ''value'' = 0" "offset_of struct_json_value_bool ''value'' = 0"
  "offset_of struct_json_value_float ''value'' = 0" "offset_of struct_mems_route_id ''input'' = 0"
  "offset_of struct_mems_route_id ''output'' = 24" "offset_of struct_coeffs ''volt2db'' = 16"
  "offset_of struct_coo_telemetry_msg ''timestamp'' = 0" "offset_of struct_coo_telemetry_msg ''temperature'' = 12"
  by code_simp+

section \<open>How far a parse writes\<close>

text \<open>
  The documented types of the tokens, \<open>char *\<close>, \<open>int32_t\<close>, \<open>struct json_obj_token\<close> (a pointer and a length) and \<open>bool\<close>, in
  bytes of the target; the widths are a parameter, and this is what the program's descriptors say nothing about.
\<close>

definition documented_widths :: "(json_token \<Rightarrow> nat) \<Rightarrow> bool" where
  "documented_widths W \<longleftrightarrow> W JSON_TOK_STRING = 4 \<and> W JSON_TOK_NUMBER = 4 \<and> W JSON_TOK_FLOAT = 8 \<and> W JSON_TOK_TRUE = 1"

text \<open>The pieces of memory a descriptor makes the library write: the member, or the elements of an array and their number.\<close>

fun written :: "(json_token \<Rightarrow> nat) \<Rightarrow> members \<Rightarrow> json_obj_descr \<Rightarrow> (nat \<times> nat) list" where
  "written W ms (JSON_OBJ_DESCR_PRIM f tok) = [(offset_of ms f, W tok)]"
| "written W ms (JSON_OBJ_DESCR_ARRAY f n l tok) = [(offset_of ms f, n * W tok), (offset_of ms l, 4)]"

definition overrun :: "(json_token \<Rightarrow> nat) \<Rightarrow> members \<Rightarrow> json_obj_descr list \<Rightarrow> nat" where
  "overrun W ms ds = foldr (\<lambda>(off, n) m. max (off + n) m) (concat (map (written W ms) ds)) 0 - size_of ms"

text \<open>The calls of \<open>json_obj_parse\<close>, with the function each is in.\<close>

definition json_parses :: "(string \<times> members \<times> json_obj_descr list) list" where
  "json_parses =
     [(''parse_msg_type_from_payload'', struct_json_type_msg, msg_type_descr),
      (''memsroute_set'', struct_mems_route_id, route_descr),
      (''mems_set'', struct_json_value_string, switch_descr),
      (''laser_setting_set'', struct_json_value_uint16, laser_descr),
      (''atten_setting_set coeff'', struct_coeffs, coeff_descr),
      (''atten_setting_set value'', struct_json_value_float, atten_value_descr),
      (''power_set'', struct_json_value_bool, power_descr)]"



section \<open>Telemetry\<close>

text \<open>
  The other direction, \<open>coo_json_encode_telemetry\<close>: the bytes of a \<open>struct coo_telemetry_msg\<close>, and what an encoder reads that takes a
  number for an \<open>int32_t\<close> and \<open>JSON_TOK_FLOAT\<close> for a \<open>struct json_obj_token\<close>. Of the time stamp it sees the low half; it takes the
  bits of the temperature for the address of a text and the status for its length.
\<close>

definition telemetry_bytes :: "64 word \<Rightarrow> u32 \<Rightarrow> u32 \<Rightarrow> u32 \<Rightarrow> u8 list" where
  "telemetry_bytes ts device bits st =
     le 8 (unat ts) @ le 4 (unat device) @ le 4 (unat bits) @ le 4 (unat st) @ replicate 4 0"

lemma telemetry_misread:
  "of_le (mem_load (telemetry_bytes ts device bits st) (offset_of struct_coo_telemetry_msg ''timestamp'') 4) = unat ts mod 2 ^ 32"
  "of_le (mem_load (telemetry_bytes ts device bits st) (offset_of struct_coo_telemetry_msg ''temperature'') 4) = unat bits"
  "of_le (mem_load (telemetry_bytes ts device bits st) (offset_of struct_coo_telemetry_msg ''temperature'' + 4) 4) = unat st"
proof -
  have u: "unat x mod 4294967296 = unat x" for x :: u32 using unsigned_less [of x, where 'a = nat] by simp
  show "of_le (mem_load (telemetry_bytes ts device bits st) (offset_of struct_coo_telemetry_msg ''timestamp'') 4) = unat ts mod 2 ^ 32"
    "of_le (mem_load (telemetry_bytes ts device bits st) (offset_of struct_coo_telemetry_msg ''temperature'') 4) = unat bits"
    "of_le (mem_load (telemetry_bytes ts device bits st) (offset_of struct_coo_telemetry_msg ''temperature'' + 4) 4) = unat st"
    by (simp_all add: telemetry_bytes_def mem_load_def offsets take_le drop_le u)
qed

end
