(* ===== verification/Json_Fields.thy ===== *)
theory Json_Fields
  imports Json_Tokens Json_Layout
begin

text \<open>
  A JSON library that stores what its documentation says, seen through the structures of the program: \<open>lib_of\<close> makes a \<open>json_lib\<close>
  of it. What the program then reads is not what was sent, where the descriptor names another type than the member has: this theory says
  what it is, and what the handlers do with it.
\<close>

section \<open>A parse into memory\<close>

text \<open>
  The library as the program sees it: the result, what is left of the text, and for each member of the structure the value of the token
  the text has for it, if any: the address of a string in the text, a 32-bit number, a truth value. What it does with an
  array of numbers stays the parameter \<open>raw_coeffs\<close>.
\<close>

record json_raw =
  raw_rc :: "json_obj_descr list \<Rightarrow> string \<Rightarrow> int"
  raw_text :: "json_obj_descr list \<Rightarrow> string \<Rightarrow> string"
  raw_string :: "json_obj_descr list \<Rightarrow> string \<Rightarrow> string \<Rightarrow> u32 option"
  raw_number :: "json_obj_descr list \<Rightarrow> string \<Rightarrow> string \<Rightarrow> u32 option"
  raw_true :: "json_obj_descr list \<Rightarrow> string \<Rightarrow> string \<Rightarrow> bool option"
  raw_coeffs :: "string \<Rightarrow> int \<times> (nat \<Rightarrow> fp) \<times> nat \<times> (nat \<Rightarrow> fp) \<times> nat"

fun token_bytes :: "json_raw \<Rightarrow> json_obj_descr list \<Rightarrow> string \<Rightarrow> string \<Rightarrow> json_token \<Rightarrow> u8 list option" where
  "token_bytes X ds t f JSON_TOK_STRING = map_option (\<lambda>p. le 4 (unat p)) (raw_string X ds t f)"
| "token_bytes X ds t f JSON_TOK_NUMBER = map_option (\<lambda>n. le 4 (unat n)) (raw_number X ds t f)"
| "token_bytes X ds t f JSON_TOK_TRUE = map_option (\<lambda>b. [if b then 1 else 0]) (raw_true X ds t f)"
| "token_bytes X ds t f JSON_TOK_FLOAT = None"

fun store_field :: "json_raw \<Rightarrow> members \<Rightarrow> json_obj_descr list \<Rightarrow> string \<Rightarrow> json_obj_descr \<Rightarrow> u8 list \<Rightarrow> u8 list" where
  "store_field X ms ds t (JSON_OBJ_DESCR_PRIM f tok) mem =
     (case token_bytes X ds t f tok of None \<Rightarrow> mem | Some bs \<Rightarrow> mem_store mem (offset_of ms f) bs)"
| "store_field X ms ds t (JSON_OBJ_DESCR_ARRAY f n l tok) mem = mem"

definition parse_into :: "json_raw \<Rightarrow> members \<Rightarrow> json_obj_descr list \<Rightarrow> string \<Rightarrow> u8 list \<Rightarrow> u8 list" where
  "parse_into X ms ds t mem = fold (store_field X ms ds t) ds mem"

text \<open>A structure of zeros, as each of the parses starts from, and the members as the program reads them.\<close>

definition parsed :: "json_raw \<Rightarrow> members \<Rightarrow> json_obj_descr list \<Rightarrow> string \<Rightarrow> u8 list" where
  "parsed X ms ds t = parse_into X ms ds t (replicate (size_of ms) 0)"

definition chars_at :: "u8 list \<Rightarrow> nat \<Rightarrow> nat \<Rightarrow> string" where
  "chars_at mem off n = map (\<lambda>b. char_of (unat b)) (mem_load mem off n)"

definition lib_of :: "json_raw \<Rightarrow> json_lib" where
  "lib_of X =
     \<lparr>json_msg_type = (\<lambda>t. (raw_rc X msg_type_descr t, raw_text X msg_type_descr t,
        chars_at (parsed X struct_json_type_msg msg_type_descr t) (offset_of struct_json_type_msg ''msg_type'') 8)),
      json_route_id = (\<lambda>t. (raw_rc X route_descr t,
        chars_at (parsed X struct_mems_route_id route_descr t) (offset_of struct_mems_route_id ''input'') MEMS_SOURCEDEST_MAX_LEN,
        chars_at (parsed X struct_mems_route_id route_descr t) (offset_of struct_mems_route_id ''output'') MEMS_SOURCEDEST_MAX_LEN)),
      json_value_string = (\<lambda>t. (raw_rc X switch_descr t,
        chars_at (parsed X struct_json_value_string switch_descr t) (offset_of struct_json_value_string ''value'') MEMS_SWITCH_NAME_LEN)),
      json_value_uint16 = (\<lambda>t. (raw_rc X laser_descr t,
        of_nat (of_le (mem_load (parsed X struct_json_value_uint16 laser_descr t) (offset_of struct_json_value_uint16 ''value'') 2)))),
      json_value_float = (\<lambda>t. (raw_rc X atten_value_descr t,
        f32_of_bits (of_le (mem_load (parsed X struct_json_value_float atten_value_descr t) (offset_of struct_json_value_float ''value'') 4)))),
      json_value_bool = (\<lambda>t. (raw_rc X power_descr t,
        of_le (mem_load (parsed X struct_json_value_bool power_descr t) (offset_of struct_json_value_bool ''value'') 1) \<noteq> 0)),
      json_coeffs = raw_coeffs X\<rparr>"

section \<open>Numbers in members of another type\<close>

lemma store_zeros: "length bs = k \<Longrightarrow> mem_store (replicate k 0) 0 bs = bs"
  by (simp add: mem_store_def)

lemma parsed_laser:
  "parse_into X struct_json_value_uint16 laser_descr t mem =
    (case raw_number X laser_descr t ''value'' of None \<Rightarrow> mem | Some n \<Rightarrow> mem_store mem 0 (le 4 (unat n)))"
  by (simp add: parse_into_def laser_descr_def offsets split: option.split)

lemma laser_value:
  assumes "raw_number X laser_descr t ''value'' = Some n"
  shows "json_value_uint16 (lib_of X) t = (raw_rc X laser_descr t, ucast n)"
proof -
  have "of_nat (unat n mod 65536) = (ucast n :: u16)"
    by (rule bit_word_eqI) (simp add: bit_simps take_bit_eq_mod [of 16 "unat n", simplified, symmetric])
  then show ?thesis
    by (simp add: lib_of_def parsed_def parsed_laser assms sizes offsets mem_load_def mem_store_def take_le)
qed

lemma parsed_atten:
  "parse_into X struct_json_value_float atten_value_descr t mem =
    (case raw_number X atten_value_descr t ''value'' of None \<Rightarrow> mem | Some n \<Rightarrow> mem_store mem 0 (le 4 (unat n)))"
  by (simp add: parse_into_def atten_value_descr_def offsets split: option.split)

lemma atten_value:
  assumes "raw_number X atten_value_descr t ''value'' = Some n"
  shows "json_value_float (lib_of X) t = (raw_rc X atten_value_descr t, f32_of_bits (unat n))"
proof -
  have "unat n mod 2 ^ 32 = unat n" using unsigned_less [of n, where 'a = nat] by simp
  then show ?thesis
    by (simp add: lib_of_def parsed_def parsed_atten assms offsets sizes mem_load_def mem_store_def)
qed

lemma f32_NaN: "0xFF800000 < n \<Longrightarrow> n < 2 ^ 32 \<Longrightarrow> f32_of_bits n = NaN"
proof -
  assume n: "0xFF800000 < n" "n < 2 ^ 32"
  then have d: "n div 8388608 = 511" by simp
  have "8388608 * (n div 8388608) + n mod 8388608 = n" by (rule mult_div_mod_eq)
  with n have "n mod 8388608 \<noteq> 0" unfolding d by linarith
  with d show ?thesis by (simp add: f32_of_bits_def Let_def)
qed

lemma neg_pattern:
  assumes "- 8388608 < sint (v :: u32)" and "sint v < 0"
  shows "0xFF800000 < unat v" and "unat v < 2 ^ 32"
proof -
  have u: "uint v < 2 ^ 32" using unsigned_less [of v, where 'a = int] by simp
  have s: "sint v = (uint v + 2 ^ 31) mod 2 ^ 32 - 2 ^ 31"
    by (simp add: sint_uint signed_take_bit_eq_take_bit_shift take_bit_eq_mod)
  have "uint v = sint v + 2 ^ 32"
  proof (cases "uint v < 2 ^ 31")
    case True
    then have "(uint v + 2 ^ 31) mod 2 ^ 32 = uint v + 2 ^ 31" by (intro mod_pos_pos_trivial) simp_all
    with s assms(2) show ?thesis by simp
  next
    case False
    have "uint v + 2 ^ 31 = (uint v - 2 ^ 31) + 2 ^ 32" by simp
    then have "(uint v + 2 ^ 31) mod 2 ^ 32 = (uint v - 2 ^ 31) mod 2 ^ 32" by (simp only: mod_add_self2)
    also have "\<dots> = uint v - 2 ^ 31" using False u by (intro mod_pos_pos_trivial) simp_all
    finally show ?thesis using s by simp
  qed
  with assms have "0xFF800000 < uint v" by simp
  moreover have "int (unat v) = uint v" by simp
  ultimately show "0xFF800000 < unat v" by linarith
  show "unat v < 2 ^ 32" using unsigned_less [of v, where 'a = nat] by simp
qed

lemma small_voltage_code: "v < 0x3A800000 \<Longrightarrow> dac_code (clamp_voltage (f32_of_bits v)) = Some 0"
proof -
  assume v: "v < 0x3A800000"
  note f = f32_small [OF v]
  have c: "clamp_voltage (f32_of_bits v) = f32_of_bits v"
    using f by (cases "f32_of_bits v") (auto simp: clamp_voltage_def MAX_VOLTAGE_val)
  have r: "volt_in_range (f32_of_bits v)" "volt_in_range (Num (1 / 1024))"
    using f by (auto simp: volt_in_range_def MAX_VOLTAGE_val)
  have "dac_code (Num (1 / 1024)) = Some 0" by code_simp
  then show ?thesis using dac_code_mono [OF r] f(3) c by auto
qed

lemma set_from_number:
  assumes "json R = lib_of X" and "0 \<le> raw_rc X atten_value_descr t"
    and "raw_number X atten_value_descr t ''value'' = Some n" and "t = take (cmd_payload_len c) (cmd_payload c)"
  shows "set_from_payload R c i raw s =
    (case set_attenuator R i (f32_of_bits (unat n)) raw s of None \<Rightarrow> None | Some s \<Rightarrow> reply c RESP_OK json_ok s)"
  using assms(2) by (simp add: set_from_payload_def assms(1) atten_value [OF assms(3)] flip: assms(4))

text \<open>A number in the payload of an attenuator setting: the voltage it becomes, and the code the converter is given.\<close>

definition dac_events :: "platform \<Rightarrow> u8 \<Rightarrow> io \<Rightarrow> io" where
  "dac_events B ch h =
     (if \<not> dac_ready B then []
      else if dac_setup_rc B (h @ [Dac_channel_setup ch]) \<noteq> 0 then [Dac_channel_setup ch]
      else [Dac_channel_setup ch, Dac_write_value ch 0])"

lemma set_attenuator_small:
  assumes "v < 0x3A800000"
  shows "\<exists>s'. set_attenuator R i (f32_of_bits v) True s = Some s' \<and>
    history s' = history s @ dac_events (board R) (channel_id (cfg (attenuators s ! i))) (history s)"
  by (simp add: set_attenuator_def attenuator_set_def requested_voltage_def Let_def dac_events_def
      small_voltage_code [OF assms] split: option.split)

lemma set_attenuator_NaN:
  assumes "dac_ready (board R)" and "dac_setup_rc (board R) (history s @ [Dac_channel_setup (channel_id (cfg (attenuators s ! i)))]) = 0"
  shows "set_attenuator R i NaN True s = None"
  using assms by (simp add: set_attenuator_def attenuator_set_def requested_voltage_def Let_def clamp_voltage_def dac_code_NaN)



section \<open>Strings in arrays of characters\<close>

lemma chars_le: "map (\<lambda>b. char_of (unat b)) (le 4 (unat p)) = pointer_bytes p"
proof -
  have "char_of (unat (of_nat k :: u8)) = (char_of (k mod 256) :: char)" for k :: nat by (simp add: unat_of_nat)
  then show ?thesis
    by (simp add: le_4 pointer_bytes_def unat_drop_bit_eq drop_bit_eq_div unat_div unsigned_ucast_eq take_bit_eq_mod)
qed

text \<open>Every string token is in a text, and every text is in the RAM of the chip.\<close>

definition strings_in_sram :: "json_raw \<Rightarrow> bool" where
  "strings_in_sram X \<longleftrightarrow> (\<forall>ds t f p. raw_string X ds t f = Some p \<longrightarrow> in_sram p)"

text \<open>A string member after a parse: the address in its first four bytes, or zeros.\<close>

definition string_member :: "u32 option \<Rightarrow> nat \<Rightarrow> string" where
  "string_member p n = (case p of None \<Rightarrow> replicate n NUL | Some p \<Rightarrow> pointer_bytes p @ replicate (n - 4) NUL)"

lemma char_0 [simp]: "char_of (0 :: nat) = NUL"
  unfolding NUL_def by code_simp

lemma msg_type_array: "snd (snd (json_msg_type (lib_of X) t)) = string_member (raw_string X msg_type_descr t ''msg_type'') 8"
  by (simp add: lib_of_def parsed_def parse_into_def msg_type_descr_def offsets sizes chars_at_def mem_load_def mem_store_def
      string_member_def chars_le split: option.split)

lemma lib_stores_pointers: "strings_in_sram X \<Longrightarrow> stores_pointers (lib_of X)"
  unfolding stores_pointers_def msg_type_array string_member_def strings_in_sram_def
  by (intro allI) (simp split: option.split, blast)

lemma route_arrays:
  "snd (json_route_id (lib_of X) t) =
    (string_member (raw_string X route_descr t ''input'') 24, string_member (raw_string X route_descr t ''output'') 24)"
  by (simp add: lib_of_def parsed_def parse_into_def route_descr_def offsets sizes chars_at_def mem_load_def mem_store_def
      string_member_def chars_le MEMS_SOURCEDEST_MAX_LEN_def split: option.split)

text \<open>No route of the box has a name with a space, or one of fewer than three characters.\<close>

definition plain_name :: "string \<Rightarrow> bool" where
  "plain_name w \<longleftrightarrow> 3 \<le> length (cstr w) \<and> CHR '' '' \<notin> set (cstr w)"

lemma booted_names_plain: "\<forall>rt \<in> set (router_routes booted_router). plain_name (input_name (route_key rt))"
  by code_simp

lemma pointer_text:
  assumes "in_sram p"
  shows "length (cstr (pointer_bytes p @ replicate n NUL)) < 3 \<or> CHR '' '' \<in> set (take 4 (cstr (pointer_bytes p @ replicate n NUL)))"
proof -
  have "char_of (32 :: nat) = CHR '' ''" by code_simp
  then obtain a b c where b: "pointer_bytes p = [a, b, c, CHR '' '']"
    using sram_top_byte [OF assms] by (auto simp: pointer_bytes_def)
  show ?thesis by (auto simp: b cstr_def NUL_def)
qed

lemma not_a_name:
  assumes "strings_in_sram X" and "plain_name w"
  shows "\<not> same_name w (string_member (raw_string X ds t f) n)"
proof
  assume eq: "same_name w (string_member (raw_string X ds t f) n)"
  let ?s = "cstr (string_member (raw_string X ds t f) n)"
  from eq have e: "take 24 (cstr w) = take 24 ?s" by (simp add: same_name_def MEMS_SWITCH_NAME_LEN_def)
  show False
  proof (cases "raw_string X ds t f")
    case None
    then have "?s = []" by (simp add: string_member_def)
    with e assms(2) show False by (auto simp: plain_name_def)
  next
    case (Some p)
    then have s: "?s = cstr (pointer_bytes p @ replicate (n - 4) NUL)" "in_sram p"
      using assms(1) by (auto simp: string_member_def strings_in_sram_def)
    have "length ?s < 3 \<or> CHR '' '' \<in> set (take 4 ?s)" using pointer_text [OF s(2)] unfolding s(1) .
    moreover have "take 4 ?s = take 4 (cstr w)"
      using arg_cong [OF e, of "take 4"] by simp
    ultimately show False
      using assms(2) arg_cong [OF e, of length] by (auto simp: plain_name_def dest: in_set_takeD)
  qed
qed

text \<open>
  C25: A request for a route names it by two addresses: with a library that stores strings as pointers, no route is ever found, and no
  switch is moved, whatever names are sent.
\<close>

theorem routes_never_found:
  assumes "tib_inv s" and "strings_in_sram X" and "json R = lib_of X"
  shows "\<exists>e. memsroute_set R c s = reply c RESP_ERROR (json_error e) s \<and>
    e = (if raw_rc X route_descr (take (cmd_payload_len c) (cmd_payload c)) < 0
         then ''Failed to parse JSON input or output'' else ''Invalid Route'')"
proof -
  let ?t = "take (cmd_payload_len c) (cmd_payload c)"
  have "router s = booted_router" using assms(1) by (simp add: tib_inv_def)
  then have none: "mems_router_get_route (router s) (string_member (raw_string X route_descr ?t ''input'') 24) out = None" for out
    using booted_names_plain not_a_name [OF assms(2)]
    by (auto simp: mems_router_get_route_def get_route_from_find find_None_iff)
  obtain rc inp out where j: "json_route_id (json R) ?t = (rc, inp, out)" by (metis prod_cases3)
  have "rc = raw_rc X route_descr ?t" "inp = string_member (raw_string X route_descr ?t ''input'') 24"
    using j route_arrays [of X ?t] by (auto simp: assms(3) lib_of_def)
  then show ?thesis unfolding memsroute_set_def j prod.case by (simp add: none)
qed

section \<open>An instance\<close>

text \<open>A library that finds every member: strings at one address, one number, and \<open>true\<close>.\<close>

definition sample_raw :: "u32 \<Rightarrow> json_raw" where
  "sample_raw n =
     \<lparr>raw_rc = (\<lambda>ds t. 1), raw_text = (\<lambda>ds t. t), raw_string = (\<lambda>ds t f. Some 0x20001010), raw_number = (\<lambda>ds t f. Some n),
      raw_true = (\<lambda>ds t f. Some True), raw_coeffs = (\<lambda>_. (-22, \<lambda>_. Num 0, 0, \<lambda>_. Num 0, 0))\<rparr>"

lemma sample_raw_strings: "strings_in_sram (sample_raw n)"
  by (simp add: strings_in_sram_def sample_raw_def in_sram_def)

lemma sample_lib: "json (sample_runtime (lib_of X)) = lib_of X" "board (sample_runtime J) = quiet_platform"
  by (simp_all add: sample_runtime_def)



theorem routes_never_found_witness:
  "\<exists>m. memsroute_set (sample_runtime (lib_of (sample_raw 0))) (sample_command ''memsroute'' SET) (booted []) =
     Some (m, booted []) \<and> out_msg_type m = RESP_ERROR"
  using routes_never_found [OF booted_inv_nil sample_raw_strings sample_lib(1), of 0 "sample_command ''memsroute'' SET"]
  by (auto simp: reply_def msg_builder_type)

end
