(* ===== verification/Pid.thy ===== *)
theory Pid
  imports C_Float
begin

text \<open>
  \<open>lib/coo_commons/pid.c\<close> and \<open>pid.h\<close>: a PID controller on C \<open>float\<close>s, every operation rounded to binary32.
\<close>

section \<open>The controller\<close>

record coo_pid =
  kp :: fp
  ki :: fp
  kd :: fp
  integral :: fp
  prev_error :: fp
  output_min :: fp
  output_max :: fp
  integral_min :: fp
  integral_max :: fp

definition coo_pid_init :: "fp \<Rightarrow> fp \<Rightarrow> fp \<Rightarrow> fp \<Rightarrow> fp \<Rightarrow> coo_pid" where
  "coo_pid_init p i d out_min out_max =
     \<lparr>kp = p, ki = i, kd = d, integral = Num 0, prev_error = Num 0,
      output_min = out_min, output_max = out_max, integral_min = out_min, integral_max = out_max\<rparr>"

definition coo_pid_reset :: "coo_pid \<Rightarrow> coo_pid" where
  "coo_pid_reset pid = pid\<lparr>integral := Num 0, prev_error := Num 0\<rparr>"

definition coo_pid_set_gains :: "coo_pid \<Rightarrow> fp \<Rightarrow> fp \<Rightarrow> fp \<Rightarrow> coo_pid" where
  "coo_pid_set_gains pid p i d = pid\<lparr>kp := p, ki := i, kd := d\<rparr>"

text \<open>The two clamps of the update.\<close>

definition fclamp :: "fp \<Rightarrow> fp \<Rightarrow> fp \<Rightarrow> fp" where
  "fclamp lo hi x = (if flt hi x then hi else if flt x lo then lo else x)"

definition coo_pid_update :: "coo_pid \<Rightarrow> fp \<Rightarrow> fp \<Rightarrow> fp \<Rightarrow> fp \<times> coo_pid" where
  "coo_pid_update pid setpoint measured dt =
     (let error = fsub binary32 setpoint measured;
          p_term = fmul binary32 (kp pid) error;
          pid = pid\<lparr>integral := fadd binary32 (integral pid) (fmul binary32 error dt)\<rparr>;
          pid = pid\<lparr>integral := fclamp (integral_min pid) (integral_max pid) (integral pid)\<rparr>;
          i_term = fmul binary32 (ki pid) (integral pid);
          derivative = (if flt (Num 0) dt then fdiv binary32 (fsub binary32 error (prev_error pid)) dt else Num 0);
          d_term = fmul binary32 (kd pid) derivative;
          output = fadd binary32 (fadd binary32 p_term i_term) d_term;
          output = fclamp (output_min pid) (output_max pid) output
      in (output, pid\<lparr>prev_error := error\<rparr>))"

section \<open>Sequences of updates\<close>

text \<open>The outputs of a sequence of updates \<open>(setpoint, measured, dt)\<close>, and the controller after it.\<close>

fun pid_run :: "coo_pid \<Rightarrow> (fp \<times> fp \<times> fp) list \<Rightarrow> fp list \<times> coo_pid" where
  "pid_run pid [] = ([], pid)"
| "pid_run pid ((sp, m, dt) # ins) =
     (let (out, pid) = coo_pid_update pid sp m dt; (outs, pid) = pid_run pid ins in (out # outs, pid))"

text \<open>Neither above the upper nor below the lower limit; a NaN is neither.\<close>

definition in_limits :: "fp \<Rightarrow> fp \<Rightarrow> fp \<Rightarrow> bool" where
  "in_limits lo hi x \<longleftrightarrow> \<not> flt hi x \<and> \<not> flt x lo"

lemma fclamp_limits: "\<not> flt hi lo \<Longrightarrow> in_limits lo hi (fclamp lo hi x)"
  using fp_clamp.clamp_high_first [of hi lo x] by (simp add: in_limits_def fclamp_def)

lemma fclamp_id: "in_limits lo hi x \<Longrightarrow> fclamp lo hi x = x"
  by (simp add: in_limits_def fclamp_def)

lemma update_limits [simp]:
  "output_min (snd (coo_pid_update pid sp m dt)) = output_min pid"
  "output_max (snd (coo_pid_update pid sp m dt)) = output_max pid"
  "integral_min (snd (coo_pid_update pid sp m dt)) = integral_min pid"
  "integral_max (snd (coo_pid_update pid sp m dt)) = integral_max pid"
  "kp (snd (coo_pid_update pid sp m dt)) = kp pid" "ki (snd (coo_pid_update pid sp m dt)) = ki pid"
  "kd (snd (coo_pid_update pid sp m dt)) = kd pid"
  by (simp_all add: coo_pid_update_def Let_def)

definition pid_ok :: "coo_pid \<Rightarrow> bool" where
  "pid_ok pid \<longleftrightarrow> \<not> flt (output_max pid) (output_min pid) \<and> \<not> flt (integral_max pid) (integral_min pid)"

lemma update_ok:
  assumes "pid_ok pid"
  shows "in_limits (output_min pid) (output_max pid) (fst (coo_pid_update pid sp m dt))"
    and "in_limits (integral_min pid) (integral_max pid) (integral (snd (coo_pid_update pid sp m dt)))"
    and "pid_ok (snd (coo_pid_update pid sp m dt))"
  using assms fclamp_limits by (simp_all add: pid_ok_def) (simp_all add: coo_pid_update_def Let_def)

lemma fadd_NaN [simp]: "fadd F NaN x = NaN" "fadd F x NaN = NaN"
  by (simp_all add: fadd_def)

lemma fmul_NaN [simp]: "fmul F NaN x = NaN" "fmul F x NaN = NaN"
  by (simp_all add: fmul_def Let_def)

lemma fclamp_NaN [simp]: "fclamp lo hi NaN = NaN"
  by (simp add: fclamp_def)

lemma update_NaN:
  assumes "integral pid = NaN \<or> m = NaN"
  shows "fst (coo_pid_update pid sp m dt) = NaN" and "integral (snd (coo_pid_update pid sp m dt)) = NaN"
  using assms by (auto simp: coo_pid_update_def Let_def fsub_def)

section \<open>Properties\<close>



text \<open>
  One measurement that is not a number poisons the controller. That output and every later one is a NaN, which
  both clamps let through, whatever is measured afterwards; only a reset ends it.
\<close>

theorem pid_NaN_sticks:
  "(let (outs, pid) = pid_run pid ((sp, NaN, dt) # ins)
    in list_all (\<lambda>out. out = NaN) outs \<and> integral pid = NaN \<and> integral (coo_pid_reset pid) = Num 0)"
proof -
  have "let (outs, pid') = pid_run pid ins in list_all (\<lambda>out. out = NaN) outs \<and> integral pid' = NaN"
    if "integral pid = NaN" for pid
    using that
  proof (induction ins arbitrary: pid)
    case (Cons x ins)
    obtain sp m dt where x: "x = (sp, m, dt)" by (cases x) auto
    from update_NaN [of pid m sp dt] Cons.prems Cons.IH [of "snd (coo_pid_update pid sp m dt)"]
    show ?case by (simp add: x case_prod_unfold Let_def)
  qed simp
  from this [of "snd (coo_pid_update pid sp NaN dt)"] update_NaN [of pid NaN sp dt] show ?thesis
    by (simp add: case_prod_unfold Let_def coo_pid_reset_def)
qed

text \<open>A non-positive or undefined time step switches the derivative term off instead of dividing by it.\<close>

lemma update_no_derivative:
  assumes "\<not> flt (Num 0) dt"
  shows "coo_pid_update (pid\<lparr>prev_error := e\<rparr>) sp m dt = coo_pid_update (pid\<lparr>prev_error := e'\<rparr>) sp m dt"
  using assms by (simp add: coo_pid_update_def Let_def)

end
