(* ===== verification/Drivers.thy ===== *)
theory Drivers
  imports TIB_Prelude
begin

text \<open>
  The small drivers of the tree: \<open>drivers/blink/gpio_led.c\<close> with its interface \<open>include/app/drivers/blink.h\<close>,
  \<open>drivers/sensor/example_sensor/example_sensor.c\<close>, and \<open>lib/custom/custom.c\<close> with its unit test. The GPIO driver's answers are
  arguments; the kernel's timer is the record of its state, and its expiries are steps.
\<close>

section \<open>The blinking LED\<close>

datatype led_call = Led_configure | Led_set int | Led_toggle

text \<open>
  \<open>timer\<close> is the period of the running timer (\<open>None\<close>: stopped); \<open>lit\<close> the level last written;
  \<open>led_period_ms\<close> is the configured period.
\<close>

record blink_gpio_led =
  led_period_ms :: u32
  timer :: "u32 option"
  timer_ready :: bool
  led_calls :: "led_call list"

definition blink_gpio_led_on_timer_expire :: "blink_gpio_led \<Rightarrow> blink_gpio_led" where
  "blink_gpio_led_on_timer_expire dev = dev\<lparr>led_calls := led_calls dev @ [Led_toggle]\<rparr>"

definition blink_gpio_led_set_period_ms :: "int \<Rightarrow> u32 \<Rightarrow> blink_gpio_led \<Rightarrow> int \<times> blink_gpio_led" where
  "blink_gpio_led_set_period_ms gpio_set_rc period_ms dev =
     (if period_ms = 0
      then (gpio_set_rc, dev\<lparr>timer := None, led_calls := led_calls dev @ [Led_set 0]\<rparr>)
      else (0, dev\<lparr>timer := Some period_ms\<rparr>))"

definition blink_gpio_led_init :: "bool \<Rightarrow> int \<Rightarrow> blink_gpio_led \<Rightarrow> int \<times> blink_gpio_led" where
  "blink_gpio_led_init gpio_ready configure_rc dev =
     (if \<not> gpio_ready then (- ENODEV, dev)
      else let dev = dev\<lparr>led_calls := led_calls dev @ [Led_configure]\<rparr>
           in if configure_rc < 0 then (configure_rc, dev)
              else let dev = dev\<lparr>timer_ready := True, timer := None\<rparr>
                   in (0, if led_period_ms dev > 0 then dev\<lparr>timer := Some (led_period_ms dev)\<rparr> else dev))"

text \<open>The driver interface of \<open>blink.h\<close>, which has one operation.\<close>

definition blink_set_period_ms :: "int \<Rightarrow> u32 \<Rightarrow> blink_gpio_led \<Rightarrow> int \<times> blink_gpio_led" where
  "blink_set_period_ms gpio_set_rc period_ms dev = blink_gpio_led_set_period_ms gpio_set_rc period_ms dev"

definition blink_off :: "int \<Rightarrow> blink_gpio_led \<Rightarrow> int \<times> blink_gpio_led" where
  "blink_off gpio_set_rc dev = blink_set_period_ms gpio_set_rc 0 dev"

section \<open>The example sensor\<close>

datatype sensor_channel = SENSOR_CHAN_PROX | SENSOR_CHAN_OTHER

text \<open>The data of the driver, and the outcome of a read: the code, and the value written if any.\<close>

record example_sensor_data =
  sensor_state :: int

definition example_sensor_sample_fetch :: "int \<Rightarrow> example_sensor_data \<Rightarrow> int \<times> example_sensor_data" where
  "example_sensor_sample_fetch gpio_get_rc d = (0, d\<lparr>sensor_state := gpio_get_rc\<rparr>)"

definition example_sensor_channel_get :: "sensor_channel \<Rightarrow> int option \<Rightarrow> example_sensor_data \<Rightarrow> int \<times> int option" where
  "example_sensor_channel_get chan val1 d =
     (if chan \<noteq> SENSOR_CHAN_PROX then (- ENOTSUP, val1) else (0, Some (sensor_state d)))"

definition example_sensor_init :: "bool \<Rightarrow> int \<Rightarrow> int" where
  "example_sensor_init port_ready configure_rc =
     (if \<not> port_ready then - ENODEV else if configure_rc < 0 then configure_rc else 0)"

section \<open>The custom library\<close>

text \<open>\<open>CONFIG_CUSTOM_GET_VALUE_DEFAULT\<close> is a number the build chooses.\<close>

definition custom_get_value :: "32 word \<Rightarrow> 32 word \<Rightarrow> 32 word" where
  "custom_get_value config_default val = (if val \<noteq> 0 then val else config_default)"

text \<open>The unit test of \<open>lib/custom\<close>: the assertions of \<open>test_get_value\<close>, on the limits of \<open>int\<close>.\<close>

definition test_get_value :: "32 word \<Rightarrow> bool" where
  "test_get_value config_default \<longleftrightarrow>
     (let INT_MIN = 0x80000000; INT_MAX = 0x7FFFFFFF; get = custom_get_value config_default
      in get INT_MIN = INT_MIN \<and> get (INT_MIN + 1) = INT_MIN + 1 \<and> get (- 1) = - 1 \<and> get 1 = 1 \<and>
         get (INT_MAX - 1) = INT_MAX - 1 \<and> get INT_MAX = INT_MAX \<and> get 0 = config_default)"

lemma unit_test_passes: "test_get_value config_default"
  by (simp add: test_get_value_def custom_get_value_def)

section \<open>The LED under its timer\<close>

inductive blink_step :: "blink_gpio_led \<Rightarrow> blink_gpio_led \<Rightarrow> bool" where
  expire: "timer dev \<noteq> None \<Longrightarrow> blink_step dev (blink_gpio_led_on_timer_expire dev)"
| set_period: "blink_set_period_ms rc p dev = (r, dev') \<Longrightarrow> blink_step dev dev'"

inductive_cases blink_stepE: "blink_step dev dev'"

inductive blink_run :: "blink_gpio_led \<Rightarrow> blink_gpio_led \<Rightarrow> bool" for dev0 where
  start: "blink_run dev0 dev0"
| step: "blink_run dev0 dev \<Longrightarrow> blink_step dev dev' \<Longrightarrow> blink_run dev0 dev'"

text \<open>The level of the LED after a list of driver calls.\<close>

fun led_level :: "led_call list \<Rightarrow> bool \<Rightarrow> bool" where
  "led_level [] lit = lit"
| "led_level (Led_configure # cs) lit = led_level cs False"
| "led_level (Led_set v # cs) lit = led_level cs (v \<noteq> 0)"
| "led_level (Led_toggle # cs) lit = led_level cs (\<not> lit)"

lemma led_level_append: "led_level (cs @ ds) lit = led_level ds (led_level cs lit)"
  by (induction cs lit rule: led_level.induct) auto

definition led_dark_when_off :: "blink_gpio_led \<Rightarrow> bool" where
  "led_dark_when_off dev \<longleftrightarrow> timer dev = None \<longrightarrow> \<not> led_level (led_calls dev) False"

lemma init_dark:
  assumes "fst (blink_gpio_led_init ready rc dev) = 0" and "led_calls dev = []"
  shows "led_dark_when_off (snd (blink_gpio_led_init ready rc dev))"
  using assms by (auto simp: blink_gpio_led_init_def led_dark_when_off_def Let_def ENODEV_def split: if_splits)



text \<open>
  The example sensor reports what its pin reads, for the one channel it has; a failed read of the pin is not
  reported by the fetch, so a negative error code comes out of the channel as if it were a measurement.
\<close>

theorem sensor_reports_pin:
  "(let (rc, d') = example_sensor_sample_fetch v d
    in rc = 0 \<and> example_sensor_channel_get SENSOR_CHAN_PROX old d' = (0, Some v) \<and>
       example_sensor_channel_get SENSOR_CHAN_OTHER old d' = (- ENOTSUP, old))"
  by (simp add: example_sensor_sample_fetch_def example_sensor_channel_get_def)

end
