(* ===== verification/Spec2Isabelle.thy ===== *)
theory Spec2Isabelle
  imports Json_Fields Pid Drivers
begin

text \<open>
  HiSPEC-TIB: the firmware of the telescope interface box, a Zephyr application that takes commands over
  MQTT and drives optical switches (GPIO), variable attenuators (a DAC) and laser drivers (Modbus), and
  publishes two photodiode readings fifty times a second.

  \<^bold>\<open>How the program is put together.\<close> \<open>main\<close> (\<open>app/src/main.c\<close>) initialises the devices
  (\<open>devices.c\<close>), waits for the network and then stays in a loop that connects to the broker, publishes
  what is in the outbound queue and polls the socket. A received message runs the callback
  \<open>mqtt_command_handler\<close> in that loop, which parses it into a \<open>struct Command\<close> and puts it in the inbound
  queue. The executor thread takes commands from there, runs \<open>dispatch_command\<close> (\<open>command.c\<close>) and puts
  the reply in the outbound queue. The handlers of \<open>command.c\<close> use the router (\<open>mems_switching.c\<close>),
  the attenuators (\<open>attenuator.c\<close>) and the laser drivers (\<open>maiman.c\<close>). The photodiode thread
  (\<open>photodiode.c\<close>) fills a queue of its own, which a work item moves to the outbound queue.

  \<^bold>\<open>Theories.\<close>

  \<^item> \<open>TIB_Prelude\<close>: C strings (memory with a terminator, \<open>strncmp\<close>, \<open>strncpy\<close>, \<open>snprintf\<close>, decimal
    printing), error numbers, the lemma collections \<open>tib_defs\<close> and \<open>cstring\<close>.
  \<^item> \<open>C_Float\<close>: binary32 and binary64 arithmetic with rounding to nearest even, infinities and NaN;
    conversions and \<open>%.4f\<close>. The locale \<open>clamping\<close> is interpreted on the C comparison.
  \<^item> \<open>Platform\<close>: the calls of the board's drivers as events in a history, their results as arbitrary
    functions of that history.
  \<^item> \<open>Mems_Switching\<close>, \<open>Attenuator\<close>, \<open>Maiman\<close>, \<open>Devices\<close>: one theory per source file, with its
    structures as records, one definition per function, and its properties.
  \<^item> \<open>Json_Utils\<close>: \<open>lib/coo_commons/json_utils.c\<close>, with \<open>strstr\<close> and \<open>strtof\<close>.
  \<^item> \<open>Command\<close>: the handlers and the dispatcher. \<open>Command_Contract\<close>: the contract every handler keeps
    (locale \<open>handler_contract\<close>, interpreted on the twelve handlers and on the dispatcher).
    \<open>Command_Spec\<close>: what the handlers do. \<open>Command_Effects\<close>: at every moment of a handler's run, which coils are driven
    (locale \<open>timed_handler\<close>, interpreted on the twelve handlers and on the dispatcher), and the sizes of all arrays.
  \<^item> \<open>Msgq\<close>, \<open>Photodiode\<close>: the kernel's message queue as a parameter with its documented laws, and the
    sampling thread.
  \<^item> \<open>Mqtt_Client\<close>: \<open>lib/coo_commons/mqtt_client.c\<close>, the wrapper around the MQTT library: connection, events,
    subscriptions, polling. The locale \<open>message_consumer\<close> says what the wrapper needs of the user's callback and promises
    for it; \<open>Main_Loop\<close> interprets it on the callback of this program.
  \<^item> \<open>Network\<close>: \<open>lib/coo_commons/network.c\<close>, the wait for the network and the socket helpers.
  \<^item> \<open>Pid\<close>: \<open>lib/coo_commons/pid.c\<close>. \<open>Drivers\<close>: the blink driver, the example sensor, \<open>lib/custom\<close> and its unit test.
  \<^item> \<open>Main_App\<close>: the callback, the executor, the forwarding work item, the publisher, the watchdog, and the
    application as a step relation \<open>app_step\<close> whose steps interleave. \<open>Main_App_Spec\<close>: the invariant of the application
    and what its commands can do. \<open>App_Flow\<close>: what flows through the queues (each command answered once and in
    order, everything queued published in order) and that whatever waits can be served.
  \<^item> \<open>Main_Loop\<close>: the main thread (\<open>main_session\<close>, one round of its endless loop) on top of the MQTT wrapper.
  \<^item> \<open>Firmware\<close>: the main thread cut at each of its blocking calls (\<open>main_tick\<close>), with the theorem that this is the
    main thread; the other threads between any two of its ticks (\<open>fw_step\<close>); that the whole refines \<open>app_step\<close>, and what
    follows from power-up on.
  \<^item> \<open>Firmware_Safety\<close>: what needs no working port expander: the sizes of all data, one coil at a time, bounded queues. The locale
    \<open>message_rule\<close> proves once what a property of all commands and messages needs to survive every step; it is interpreted on
    the sizes, and in \<open>Firmware_Replies\<close> on the texts: what each request is answered, and that nothing else is said.
  \<^item> \<open>Json_Tokens\<close>: with a JSON library that stores strings as pointers (\<open>stores_pointers\<close>), what the parser of the message type
    sees in its array, and that then no request is ever accepted.
  \<^item> \<open>Json_Layout\<close>: the structures and the descriptors given to the JSON library, as bytes of the target: offsets, how far a parse
    writes past its structure, what an encoder reads. \<open>Json_Fields\<close>: a library that stores what is documented (\<open>lib_of\<close>) and what
    the handlers make of its numbers and strings.

  \<^bold>\<open>What the properties show.\<close> Bottom up: the devices' operations do what they are for and stay inside their ranges
  and arrays; every handler keeps the contract of a reply; the callback queues the command a message asks for or refuses
  it once; the threads, however they interleave, keep every queue well formed, answer every command once and in order,
  and never fault; from power-up on all data keeps its declared size, no two coils are ever driven at once, and the text of
  every message published is known. Some properties state what the code does where that cannot be meant (\<open>set\<close> commands have no
  effect, the watchdog starves): these are the findings of the development.

  \<^bold>\<open>State.\<close> The global variables of the devices are the record \<open>tib\<close> (switches, router, attenuators, history); the
  application adds the three queues, the executor's reply in hand, the message id and what has been published (record
  \<open>app\<close>); the MQTT wrapper has a record of its own (\<open>mqtt_state\<close>, with the client and the calls made), the main thread
  adds its local variables (\<open>main_state\<close>), and \<open>firmware\<close> puts all together; its \<open>app_view\<close> is the state of the
  application. A pointer to a switch is its index in the array. An array with a counter is the list of its used entries; a
  character array is the list of all its bytes.

  \<^bold>\<open>Errors and bounds.\<close> Error codes are integers as in the sources. Undefined behaviour (an out-of-bounds
  access, the conversion of a NaN) is the result \<open>None\<close>. 8, 16 and 32-bit integers are words; time stamps are
  64-bit words. Loops over arrays are structural recursion; the loops that may run for ever are
  \<open>partial_function\<close>s, whose result then is \<open>None\<close> too, and where they end this is proved (the purging queue, the
  publisher, the forwarder, the retries of the socket helpers, the connection when the broker accepts after some
  refusals, the wait for the network). No fuel is used; \<open>main_ticks\<close> and \<open>main_sessions\<close> count steps of an endless loop.

  \<^bold>\<open>Parameters.\<close> Zephyr's drivers, JSON and MQTT libraries, sockets and message queues are not part of the repository. They
  are arguments of the definitions: a \<open>platform\<close>, a \<open>json_lib\<close>, an \<open>mqtt_lib\<close>, an \<open>os\<close> and a \<open>msgq\<close>; what they return may depend on
  everything asked of them so far, and the MQTT library may deliver any events during any of its calls. Uninitialised stack
  memory is an argument too (\<open>stack_bytes\<close>). Named hypotheses state what is relied on: \<open>msgq_laws\<close> (a bounded
  first-in-first-out queue), \<open>json_in_place\<close> (the parser works in place), \<open>json_rejects_empty\<close> (an empty
  text is not JSON), \<open>stores_pointers\<close> (a string token is stored as its address in the RAM of the chip; only \<open>Json_Tokens\<close>
  assumes it, all else holds whatever the library leaves in the array), \<open>documented_widths\<close> (the bytes of each type of
  token) and \<open>strings_in_sram\<close> (the addresses of its strings), \<open>read_law\<close> (a read of a payload returns no more than was asked for), \<open>publish_law\<close> (sending delivers
  no received message), \<open>poll_clock_law\<close> (a poll that answers 0 has waited for its timeout).

  \<^bold>\<open>Interleaving.\<close> The threads share only the message queues: the devices' state belongs to the executor, the connection to
  the main thread. A thread's work between two of its blocking calls is one step. The main thread, which runs the callback, has
  a higher priority than the executor and the photodiode thread, so that they run only while it is blocked; the work item
  may interrupt it, but touches the outbound queue only, which a callback uses at most once.

  \<^bold>\<open>Not modelled.\<close> Logging, and the functions that only log (\<open>log_mac_addr\<close>, \<open>wdt_callback\<close>,
  \<open>coo_network_log_mac_addr\<close>); the device tree, Kconfig and board files; the thread stacks and priorities (but see
  above); the bodies of Zephyr's functions.
\<close>

end
